theory Spec2Isabelle
  imports Complex_Main
begin

section \<open>The Ising engine of \<^verbatim>\<open>ising.js\<close>\<close>

text \<open>
  The file \<^verbatim>\<open>src/ising.js\<close> holds three versions of the constructor \<^verbatim>\<open>Ising\<close>. The
  model follows the last one (lines 768 to 1079, \<^verbatim>\<open>Ising(settings)\<close>); the metropolis
  method of the second one (lines 475 to 491, \<^verbatim>\<open>Ising(nx, ny, ...)\<close>) is modelled beside
  it for the comparison of the two update orders.

  Conventions of the model.
  \<^item> JavaScript numbers are IEEE doubles. Spins and exchange fields are small integers
    there and are \<open>int\<close> here. The numbers of \<^verbatim>\<open>update\<close> (the weights, the running sums
    of the two observables, the block accumulators) are the doubles the source
    computes: every sum, product and quotient of \<^verbatim>\<open>update\<close> is rounded by \<open>fl\<close>.
    Temperature, field and increments, the energy difference of a trial and the
    scheduler's comparisons are kept over the reals. Divisions by zero are avoided or
    written out where the source can reach them (\<open>boltzmannAccept\<close>); the block
    accumulators are meaningful for \<open>averagingFrames \<noteq> 0\<close> only (the source gets
    \<^verbatim>\<open>NaN\<close> or \<^verbatim>\<open>Infinity\<close> there).
  \<^item> \<^verbatim>\<open>Math.random()\<close> is a stream \<open>randomSource\<close> of reals with a cursor
    \<open>randomCount\<close>; each call reads the stream at the cursor and advances it. The
    source's generator returns values in \<open>[0, 1)\<close>; theorems that need this say so.
  \<^item> \<^verbatim>\<open>noLoop()\<close> of p5.js clears the flag \<open>looping\<close>; the draw loop \<open>frames\<close> calls
    \<open>simulationStep\<close> only while the flag is set.
  \<^item> Reading a property of \<^verbatim>\<open>null\<close> or \<^verbatim>\<open>undefined\<close> raises \<open>TypeError\<close>; reading a
    missing array element gives \<^verbatim>\<open>undefined\<close>, which turns arithmetic into \<^verbatim>\<open>NaN\<close>
    and every comparison with it into false.
  \<^item> Rendering (\<^verbatim>\<open>show\<close>, \<^verbatim>\<open>drawScale\<close>, \<^verbatim>\<open>spinBuffer\<close>), logging, file names and the
    string formatting of table rows (\<^verbatim>\<open>toExponential(6)\<close>) are left out: a table row
    holds the four numbers it is printed from.
\<close>

subsection \<open>Data\<close>

datatype error = TypeError

type_synonym grid = "int list list"

record row =
  row_temperature :: real
  row_magneticField :: real
  row_magnetization :: real
  row_orderParameter :: real

record settings =
  width :: int
  height :: int
  mcStepsPerFrame :: nat
  averagingFrames :: int
  temperature :: real
  magneticField :: real
  randomizeLattice :: bool
  loopMode :: "string option"
  loopTargetValue :: real
  loopIncrement :: real

text \<open>
  The object built by \<^verbatim>\<open>new Ising(settings)\<close>. \<open>loopMode = None\<close> is \<^verbatim>\<open>null\<close>.
  \<open>averageOrderParamter\<close> is the property the source's \<^verbatim>\<open>update\<close> writes to (line 920,
  spelt so); it is never initialised, so it is \<^verbatim>\<open>undefined\<close> and then \<^verbatim>\<open>NaN\<close>, both
  \<open>None\<close> here.
\<close>

record ising = settings +
  frameCounter :: int
  dataTable :: "row list"
  loopBackward :: bool
  loopStartValue :: real
  magnetization :: real
  orderParameter :: real
  averageMagnetization :: real
  averageOrderParameter :: real
  averageOrderParamter :: "real option"
  spin :: grid
  exchangeField :: grid
  looping :: bool
  randomSource :: "nat \<Rightarrow> real"
  randomCount :: nat

subsection \<open>Arrays and periodic neighbours\<close>

definition cell_at :: "grid \<Rightarrow> int \<Rightarrow> int \<Rightarrow> int" where
  "cell_at g i j = g ! nat i ! nat j"

text \<open>
  \<open>cell_at\<close>, \<open>set_cell\<close> and \<open>add_cell\<close> are the reads and writes of cells that
  exist. The constructor builds, and the methods keep, grids of \<open>width\<close> columns of
  \<open>height\<close> cells, and a flip is reached only for a cell inside the grid, whose four
  neighbours are cells of the grid as well; a write outside an array, which JavaScript
  answers by extending the array or by raising, is therefore not reached. The reads of
  the cell a trial picks can miss the grid; they are \<open>js_row\<close> and \<open>js_elem\<close>,
  \<^verbatim>\<open>g[i]\<close> and \<^verbatim>\<open>r[j]\<close> as JavaScript reads them, where \<open>None\<close> is \<^verbatim>\<open>undefined\<close>.
\<close>

definition js_row :: "grid \<Rightarrow> int \<Rightarrow> int list option" where
  "js_row g i = (if 0 \<le> i \<and> i < int (length g) then Some (g ! nat i) else None)"

definition js_elem :: "int list \<Rightarrow> int \<Rightarrow> int option" where
  "js_elem r j = (if 0 \<le> j \<and> j < int (length r) then Some (r ! nat j) else None)"

definition set_cell :: "grid \<Rightarrow> int \<Rightarrow> int \<Rightarrow> int \<Rightarrow> grid" where
  "set_cell g i j v = g[nat i := (g ! nat i)[nat j := v]]"

definition add_cell :: "grid \<Rightarrow> int \<Rightarrow> int \<Rightarrow> int \<Rightarrow> grid" where
  "add_cell g i j v = set_cell g i j (cell_at g i j + v)"

text \<open>
  \<^verbatim>\<open>(k + 1) % n\<close> and \<^verbatim>\<open>(k - 1 + n) % n\<close>. For \<open>0 \<le> k < n\<close> both operands are
  non-negative, where JavaScript's \<^verbatim>\<open>%\<close> and \<open>mod\<close> agree.
\<close>

definition wrap_next :: "int \<Rightarrow> int \<Rightarrow> int" where
  "wrap_next n k = (k + 1) mod n"

definition wrap_prev :: "int \<Rightarrow> int \<Rightarrow> int" where
  "wrap_prev n k = (k - 1 + n) mod n"

definition sumOverNextNeighbors :: "int \<Rightarrow> int \<Rightarrow> grid \<Rightarrow> int \<Rightarrow> int \<Rightarrow> int" where
  "sumOverNextNeighbors W H sp i j =
     cell_at sp (wrap_next W i) j + cell_at sp (wrap_prev W i) j +
     cell_at sp i (wrap_next H j) + cell_at sp i (wrap_prev H j)"

subsection \<open>Construction\<close>

text \<open>
  \<^verbatim>\<open>initialize\<close> (lines 815 to 847). The cells are pushed column by column, so with
  \<^verbatim>\<open>randomizeLattice\<close> cell \<open>(i, j)\<close> reads draw number \<open>i * height + j\<close> after the
  cursor. The loops run \<open>nat (width s)\<close> and \<open>nat (height s)\<close> times: not at all for a
  size that is not positive.
\<close>

definition initial_spin :: "ising \<Rightarrow> nat \<Rightarrow> nat \<Rightarrow> int" where
  "initial_spin s i j =
     (if randomizeLattice s
      then 2 * \<lfloor>2 * randomSource s (randomCount s + i * nat (height s) + j)\<rfloor> - 1
      else 1)"

definition initialize :: "ising \<Rightarrow> ising" where
  "initialize s =
     (let W = width s; H = height s;
          sp = map (\<lambda>i. map (\<lambda>j. initial_spin s i j) [0..<nat H]) [0..<nat W];
          ef = map (\<lambda>i. map (\<lambda>j. sumOverNextNeighbors W H sp (int i) (int j)) [0..<nat H])
                 [0..<nat W]
      in s\<lparr>spin := sp, exchangeField := ef,
           randomCount := randomCount s + (if randomizeLattice s then nat W * nat H else 0)\<rparr>)"

text \<open>
  The constructor (lines 768 to 848). \<^verbatim>\<open>this.loopMode.charAt(0)\<close> (line 804) raises a
  TypeError when \<^verbatim>\<open>loopMode\<close> is \<^verbatim>\<open>null\<close>; nothing else in it can fail, and nothing in
  it inspects the values of the settings.
\<close>

definition Ising :: "settings \<Rightarrow> (nat \<Rightarrow> real) \<Rightarrow> error + ising" where
  "Ising cfg rnd =
     (case loopMode cfg of
        None \<Rightarrow> Inl TypeError
      | Some m \<Rightarrow>
          Inr (initialize
            \<lparr>width = width cfg, height = height cfg,
             mcStepsPerFrame = mcStepsPerFrame cfg, averagingFrames = averagingFrames cfg,
             temperature = temperature cfg, magneticField = magneticField cfg,
             randomizeLattice = randomizeLattice cfg, loopMode = loopMode cfg,
             loopTargetValue = loopTargetValue cfg, loopIncrement = loopIncrement cfg,
             frameCounter = 1, dataTable = [], loopBackward = False,
             loopStartValue =
               (if take 1 m = ''T'' then temperature cfg else magneticField cfg),
             magnetization = 0, orderParameter = 0,
             averageMagnetization = 0, averageOrderParameter = 0,
             averageOrderParamter = None,
             spin = [], exchangeField = [], looping = True,
             randomSource = rnd, randomCount = 0\<rparr>))"

subsection \<open>Metropolis trials\<close>

definition random :: "ising \<Rightarrow> real \<times> ising" where
  "random s = (randomSource s (randomCount s), s\<lparr>randomCount := randomCount s + 1\<rparr>)"

text \<open>
  \<^verbatim>\<open>Math.random() < Math.exp(deltaE/this.temperature)\<close>, reached for \<open>deltaE < 0\<close> and for
  a \<^verbatim>\<open>NaN\<close> \<open>deltaE\<close> only. At temperature zero the quotient is \<^verbatim>\<open>-Infinity\<close> for a
  negative \<open>deltaE\<close> (the exponential is 0), \<^verbatim>\<open>Infinity\<close> for a positive one and \<^verbatim>\<open>NaN\<close>
  for zero.
\<close>

definition boltzmannAccept :: "real \<Rightarrow> real \<Rightarrow> real \<Rightarrow> bool" where
  "boltzmannAccept r deltaE T =
     (if T = 0 then (if deltaE < 0 then r < 0 else 0 < deltaE)
      else r < exp (deltaE / T))"

text \<open>
  The accepted branch, lines 875 to 887: the spin is negated first, then twice the new
  spin is added to the four neighbours' exchange fields.
\<close>

definition flip_grids :: "int \<Rightarrow> int \<Rightarrow> int \<Rightarrow> int \<Rightarrow> grid \<times> grid \<Rightarrow> grid \<times> grid" where
  "flip_grids W H i j g =
     (let sp = set_cell (fst g) i j (- cell_at (fst g) i j);
          right = wrap_next W i; left = wrap_prev W i;
          above = wrap_next H j; below = wrap_prev H j;
          e1 = add_cell (snd g) right j (2 * cell_at sp i j);
          e2 = add_cell e1 left j (2 * cell_at sp i j);
          e3 = add_cell e2 i above (2 * cell_at sp i j);
          e4 = add_cell e3 i below (2 * cell_at sp i j)
      in (sp, e4))"

definition flipSpin :: "int \<Rightarrow> int \<Rightarrow> ising \<Rightarrow> ising" where
  "flipSpin i j s =
     (let g = flip_grids (width s) (height s) i j (spin s, exchangeField s)
      in s\<lparr>spin := fst g, exchangeField := snd g\<rparr>)"

definition deltaE_of :: "ising \<Rightarrow> int \<Rightarrow> int \<Rightarrow> real" where
  "deltaE_of s sp ex = - 2 * of_int sp * (of_int ex + magneticField s)"

text \<open>
  One pass of the loop body of \<^verbatim>\<open>metropolis\<close> (lines 866 to 888). The third draw is
  made only when \<open>deltaE \<ge> 0\<close> fails (\<^verbatim>\<open>||\<close> short-circuits). A cell outside a column makes
  \<open>deltaE\<close> \<^verbatim>\<open>NaN\<close>: both tests fail and nothing is flipped. A column outside the grid
  raises.
\<close>

definition trial :: "ising \<Rightarrow> error + ising" where
  "trial s =
     (let (r1, s1) = random s;
          i = \<lfloor>of_int (width s) * r1\<rfloor>;
          (r2, s2) = random s1;
          j = \<lfloor>of_int (height s) * r2\<rfloor>
      in case (js_row (spin s) i, js_row (exchangeField s) i) of
           (Some sr, Some er) \<Rightarrow>
             (case (js_elem sr j, js_elem er j) of
                (Some sp, Some ex) \<Rightarrow>
                  (let deltaE = deltaE_of s sp ex in
                   if deltaE \<ge> 0 then Inr (flipSpin i j s2)
                   else (let (r3, s3) = random s2 in
                         if boltzmannAccept r3 deltaE (temperature s)
                         then Inr (flipSpin i j s3) else Inr s3))
              | _ \<Rightarrow> Inr (snd (random s2)))
         | _ \<Rightarrow> Inl TypeError)"

fun trials :: "nat \<Rightarrow> ising \<Rightarrow> error + ising" where
  "trials 0 s = Inr s"
| "trials (Suc n) s = (case trial s of Inl e \<Rightarrow> Inl e | Inr s' \<Rightarrow> trials n s')"

definition metropolis :: "ising \<Rightarrow> error + ising" where
  "metropolis s = trials (mcStepsPerFrame s) s"

subsection \<open>Double precision\<close>

text \<open>
  Binary64 with rounding to nearest, ties to even: \<open>fl x\<close> is the double nearest to the
  real \<open>x\<close>, the one with the even significand when two are equally near. A nonzero
  \<open>x\<close> with \<open>2 ^ e \<le> \<bar>x\<bar> < 2 ^ (e + 1)\<close> is rounded to a multiple of \<open>2 ^ (e - 52)\<close>.
  The exponent range is not bounded (no overflow, no subnormal numbers): the numbers of
  \<^verbatim>\<open>update\<close> lie between \<open>1 / (4 * W * H)\<close> and about 1 in magnitude. Width, height
  and block size are integers, which are doubles up to \<open>2 ^ 53\<close>. \<open>unit_roundoff\<close> is the
  largest relative error of one rounding.
\<close>

definition unit_roundoff :: real where
  "unit_roundoff = 1 / 2 ^ 53"

definition round_half_even :: "real \<Rightarrow> int" where
  "round_half_even y =
     (let f = \<lfloor>y\<rfloor>; d = y - of_int f
      in if d < 1 / 2 then f else if 1 / 2 < d then f + 1
         else if even f then f else f + 1)"

definition binade :: "real \<Rightarrow> int" where
  "binade x = \<lfloor>log 2 \<bar>x\<bar>\<rfloor>"

definition fl :: "real \<Rightarrow> real" where
  "fl x =
     (if x = 0 then 0
      else of_int (round_half_even (x / 2 powi (binade x - 52))) * 2 powi (binade x - 52))"

subsection \<open>Observables and the data table\<close>

text \<open>\<^verbatim>\<open>this.frameCounter % this.averagingFrames == 0\<close>; with a zero divisor the
  remainder is \<^verbatim>\<open>NaN\<close> and the test fails.\<close>

definition averagingCompleted :: "ising \<Rightarrow> bool" where
  "averagingCompleted s =
     (averagingFrames s \<noteq> 0 \<and> frameCounter s mod averagingFrames s = 0)"

text \<open>
  The two nested loops of \<^verbatim>\<open>update\<close> with a running sum \<^verbatim>\<open>acc += f(i, j)\<close> that starts
  at 0: each addition is rounded.
\<close>

definition lattice_sum :: "ising \<Rightarrow> (nat \<Rightarrow> nat \<Rightarrow> real) \<Rightarrow> real" where
  "lattice_sum s f =
     fold (\<lambda>i acc. fold (\<lambda>j acc. fl (acc + f i j)) [0..<nat (height s)] acc)
       [0..<nat (width s)] 0"

definition updateDataTable :: "ising \<Rightarrow> ising" where
  "updateDataTable s =
     s\<lparr>dataTable := dataTable s @
          [\<lparr>row_temperature = temperature s, row_magneticField = magneticField s,
            row_magnetization = averageMagnetization s,
            row_orderParameter = averageOrderParameter s\<rparr>]\<rparr>"

text \<open>\<^verbatim>\<open>undefined + x\<close> and \<^verbatim>\<open>NaN + x\<close> are \<^verbatim>\<open>NaN\<close>.\<close>

fun js_plus :: "real option \<Rightarrow> real \<Rightarrow> real option" where
  "js_plus None x = None"
| "js_plus (Some a) x = Some (fl (a + x))"

text \<open>
  \<^verbatim>\<open>update\<close> (lines 893 to 929). The weight is used inside the loops only, that is, only
  when width and height are positive.
\<close>

definition update :: "ising \<Rightarrow> ising" where
  "update s =
     (let weight = fl (fl (1 / of_int (width s)) / of_int (height s));
          m = lattice_sum s
                (\<lambda>i j. fl (of_int (cell_at (spin s) (int i) (int j)) * weight));
          s1 = s\<lparr>magnetization := m,
                 averageMagnetization :=
                   fl (averageMagnetization s + fl (m / of_int (averagingFrames s)))\<rparr>;
          weight4 = fl (weight / 4);
          e = lattice_sum s
                (\<lambda>i j. fl (fl (of_int (cell_at (exchangeField s) (int i) (int j)) *
                                of_int (cell_at (spin s) (int i) (int j))) * weight4));
          s2 = s1\<lparr>orderParameter := e,
                  averageOrderParamter :=
                    js_plus (averageOrderParamter s1)
                      (fl (e / of_int (averagingFrames s)))\<rparr>
      in if averagingCompleted s2
         then (updateDataTable s2)\<lparr>averageMagnetization := 0, averageOrderParameter := 0\<rparr>
         else s2)"

subsection \<open>The scheduler\<close>

definition epsilon :: real where
  "epsilon = 1 / 1000000"

definition increment :: "ising \<Rightarrow> ising" where
  "increment s =
     (if loopMode s = Some ''TLOOP'' then
        (let s1 = (if \<not> loopBackward s \<and> \<bar>temperature s - loopTargetValue s\<bar> < epsilon
                   then s\<lparr>loopBackward := True, loopIncrement := - loopIncrement s\<rparr>
                   else s)
         in s1\<lparr>temperature := temperature s1 + loopIncrement s1\<rparr>)
      else if loopMode s = Some ''TSWEEP'' then
        s\<lparr>temperature := temperature s + loopIncrement s\<rparr>
      else if loopMode s = Some ''HLOOP'' then
        (let s1 = (if \<not> loopBackward s \<and> \<bar>magneticField s - loopTargetValue s\<bar> < epsilon
                   then s\<lparr>loopBackward := True, loopIncrement := - loopIncrement s\<rparr>
                   else s)
         in s1\<lparr>magneticField := magneticField s1 + loopIncrement s1\<rparr>)
      else if loopMode s = Some ''HSWEEP'' then
        s\<lparr>magneticField := magneticField s + loopIncrement s\<rparr>
      else s)"

definition exitCondition :: "ising \<Rightarrow> bool" where
  "exitCondition s =
     (if loopMode s = Some ''TSWEEP'' then
        \<bar>temperature s - loopTargetValue s\<bar> < epsilon
      else if loopMode s = Some ''HSWEEP'' then
        \<bar>magneticField s - loopTargetValue s\<bar> < epsilon
      else if loopMode s = Some ''TLOOP'' then
        loopBackward s \<and> \<bar>temperature s - loopStartValue s\<bar> < epsilon
      else if loopMode s = Some ''HLOOP'' then
        loopBackward s \<and> \<bar>magneticField s - loopStartValue s\<bar> < epsilon
      else of_int (frameCounter s) \<ge> loopTargetValue s)"

definition terminate :: "ising \<Rightarrow> ising" where
  "terminate s = s\<lparr>looping := False\<rparr>"

definition iterate :: "ising \<Rightarrow> ising" where
  "iterate s =
     (let s1 = (if averagingCompleted s
                then (if exitCondition s then terminate s else increment s)
                else s)
      in s1\<lparr>frameCounter := frameCounter s1 + 1\<rparr>)"

definition simulationStep :: "ising \<Rightarrow> error + ising" where
  "simulationStep s =
     (case metropolis s of Inl e \<Rightarrow> Inl e | Inr s1 \<Rightarrow> Inr (iterate (update s1)))"

text \<open>The draw loop of p5.js: one \<^verbatim>\<open>simulationStep\<close> per frame until \<^verbatim>\<open>noLoop()\<close>.\<close>

fun frames :: "nat \<Rightarrow> ising \<Rightarrow> error + ising" where
  "frames 0 s = Inr s"
| "frames (Suc n) s =
     (if looping s
      then (case simulationStep s of Inl e \<Rightarrow> Inl e | Inr s' \<Rightarrow> frames n s')
      else Inr s)"

subsection \<open>The metropolis method of the second version\<close>

text \<open>
  \<^verbatim>\<open>Ising(nx, ny, mcSteps, ...)\<close>, lines 475 to 491: the fields this method reads and
  writes, under the names they have there, and the random source. Its accepted branch
  subtracts twice the old spin from the four neighbours' exchange fields first and
  negates the spin last. \<open>to_legacy\<close> reads an object of the last version as one of
  the second.
\<close>

record ising_legacy =
  nx :: int
  ny :: int
  mcSteps :: nat
  temp :: real
  hField :: real
  spin_legacy :: grid
  exchangeField_legacy :: grid
  randomSource_legacy :: "nat \<Rightarrow> real"
  randomCount_legacy :: nat

definition sub_cell :: "grid \<Rightarrow> int \<Rightarrow> int \<Rightarrow> int \<Rightarrow> grid" where
  "sub_cell g i j v = set_cell g i j (cell_at g i j - v)"

definition flip_grids_legacy :: "int \<Rightarrow> int \<Rightarrow> int \<Rightarrow> int \<Rightarrow> grid \<times> grid \<Rightarrow> grid \<times> grid" where
  "flip_grids_legacy W H i j g =
     (let e1 = sub_cell (snd g) (wrap_next W i) j (2 * cell_at (fst g) i j);
          e2 = sub_cell e1 (wrap_prev W i) j (2 * cell_at (fst g) i j);
          e3 = sub_cell e2 i (wrap_next H j) (2 * cell_at (fst g) i j);
          e4 = sub_cell e3 i (wrap_prev H j) (2 * cell_at (fst g) i j);
          sp = set_cell (fst g) i j (- cell_at (fst g) i j)
      in (sp, e4))"

definition flipSpin_legacy :: "int \<Rightarrow> int \<Rightarrow> ising_legacy \<Rightarrow> ising_legacy" where
  "flipSpin_legacy i j s =
     (let g = flip_grids_legacy (nx s) (ny s) i j (spin_legacy s, exchangeField_legacy s)
      in s\<lparr>spin_legacy := fst g, exchangeField_legacy := snd g\<rparr>)"

definition random_legacy :: "ising_legacy \<Rightarrow> real \<times> ising_legacy" where
  "random_legacy s =
     (randomSource_legacy s (randomCount_legacy s),
      s\<lparr>randomCount_legacy := randomCount_legacy s + 1\<rparr>)"

definition trial_legacy :: "ising_legacy \<Rightarrow> error + ising_legacy" where
  "trial_legacy s =
     (let (r1, s1) = random_legacy s;
          i = \<lfloor>of_int (nx s) * r1\<rfloor>;
          (r2, s2) = random_legacy s1;
          j = \<lfloor>of_int (ny s) * r2\<rfloor>
      in case (js_row (spin_legacy s) i, js_row (exchangeField_legacy s) i) of
           (Some sr, Some er) \<Rightarrow>
             (case (js_elem sr j, js_elem er j) of
                (Some sp, Some ex) \<Rightarrow>
                  (let deltaE = - 2 * of_int sp * (of_int ex + hField s) in
                   if deltaE \<ge> 0 then Inr (flipSpin_legacy i j s2)
                   else (let (r3, s3) = random_legacy s2 in
                         if boltzmannAccept r3 deltaE (temp s)
                         then Inr (flipSpin_legacy i j s3) else Inr s3))
              | _ \<Rightarrow> Inr (snd (random_legacy s2)))
         | _ \<Rightarrow> Inl TypeError)"

fun trials_legacy :: "nat \<Rightarrow> ising_legacy \<Rightarrow> error + ising_legacy" where
  "trials_legacy 0 s = Inr s"
| "trials_legacy (Suc n) s =
     (case trial_legacy s of Inl e \<Rightarrow> Inl e | Inr s' \<Rightarrow> trials_legacy n s')"

definition metropolis_legacy :: "ising_legacy \<Rightarrow> error + ising_legacy" where
  "metropolis_legacy s = trials_legacy (mcSteps s) s"

definition to_legacy :: "ising \<Rightarrow> ising_legacy" where
  "to_legacy s =
     \<lparr>nx = width s, ny = height s, mcSteps = mcStepsPerFrame s, temp = temperature s,
      hField = magneticField s, spin_legacy = spin s,
      exchangeField_legacy = exchangeField s, randomSource_legacy = randomSource s,
      randomCount_legacy = randomCount s\<rparr>"

subsection \<open>Auxiliary notions and example inputs\<close>

text \<open>The state with the parts a Metropolis trial may write blanked out.\<close>

definition outside_lattice :: "ising \<Rightarrow> ising" where
  "outside_lattice s = s\<lparr>spin := [], exchangeField := [], randomCount := 0\<rparr>"

text \<open>The fields the scheduler reads and writes: four fixed ones, six variable ones.\<close>

definition scheduler_part ::
  "ising \<Rightarrow> (string option \<times> int \<times> real \<times> real) \<times> (real \<times> real \<times> real \<times> bool \<times> int \<times> bool)" where
  "scheduler_part s =
     ((loopMode s, averagingFrames s, loopTargetValue s, loopStartValue s),
      (temperature s, magneticField s, loopIncrement s, loopBackward s, frameCounter s,
       looping s))"

text \<open>
  A temperature loop from 2 to 3 and back on a lattice of one cell, without trials:
  the settings, and the state the loop is in when the temperature has reached 3.
\<close>

definition example_settings :: settings where
  "example_settings =
     \<lparr>width = 1, height = 1, mcStepsPerFrame = 0, averagingFrames = 1,
      temperature = 2, magneticField = 0, randomizeLattice = False,
      loopMode = Some ''TLOOP'', loopTargetValue = 3, loopIncrement = 1 / 2\<rparr>"

definition example_state :: ising where
  "example_state =
     \<lparr>width = 1, height = 1, mcStepsPerFrame = 0, averagingFrames = 1,
      temperature = 3, magneticField = 3, randomizeLattice = False,
      loopMode = Some ''TLOOP'', loopTargetValue = 3, loopIncrement = 1 / 2,
      frameCounter = 1, dataTable = [], loopBackward = False, loopStartValue = 2,
      magnetization = 0, orderParameter = 0, averageMagnetization = 0,
      averageOrderParameter = 0, averageOrderParamter = None,
      spin = [[1]], exchangeField = [[4]], looping = True,
      randomSource = (\<lambda>n. 0), randomCount = 0\<rparr>"

text \<open>
  The shape of a grid of \<open>W\<close> columns of \<open>H\<close> cells, the exchange field as the
  exact sum of the four periodic neighbours in every cell, and the two together.
\<close>

definition wf_grid :: "int \<Rightarrow> int \<Rightarrow> grid \<Rightarrow> bool" where
  "wf_grid W H g = (length g = nat W \<and> (\<forall>r \<in> set g. length r = nat H))"

definition cache_exact :: "int \<Rightarrow> int \<Rightarrow> grid \<Rightarrow> grid \<Rightarrow> bool" where
  "cache_exact W H sp ef =
     (\<forall>i \<in> {0..<nat W}. \<forall>j \<in> {0..<nat H}.
        cell_at ef (int i) (int j) = sumOverNextNeighbors W H sp (int i) (int j))"

definition cache_invariant :: "ising \<Rightarrow> bool" where
  "cache_invariant s =
     (wf_grid (width s) (height s) (spin s) \<and>
      wf_grid (width s) (height s) (exchangeField s) \<and>
      cache_exact (width s) (height s) (spin s) (exchangeField s))"

text \<open>The parameter that a mode leaves alone: none, one or both.\<close>

definition temperature_modes :: "string option set" where
  "temperature_modes = {Some ''TSWEEP'', Some ''TLOOP''}"

definition field_modes :: "string option set" where
  "field_modes = {Some ''HSWEEP'', Some ''HLOOP''}"

definition inactive_fixed :: "ising \<Rightarrow> ising \<Rightarrow> bool" where
  "inactive_fixed s s' =
     (loopMode s' = loopMode s \<and>
      (if loopMode s \<in> temperature_modes then magneticField s' = magneticField s
       else if loopMode s \<in> field_modes then temperature s' = temperature s
       else temperature s' = temperature s \<and> magneticField s' = magneticField s))"

text \<open>
  A uniform lattice of two by two cells with one trial per frame and a random source
  that always returns 0: the settings, the state the constructor builds from them, and
  that state after its first trial, which flips cell \<open>(0, 0)\<close>.
\<close>

definition lattice_settings :: settings where
  "lattice_settings =
     \<lparr>width = 2, height = 2, mcStepsPerFrame = 1, averagingFrames = 1,
      temperature = 1, magneticField = 0, randomizeLattice = False,
      loopMode = Some ''TSWEEP'', loopTargetValue = 3, loopIncrement = 1\<rparr>"

definition lattice_state :: ising where
  "lattice_state =
     \<lparr>width = 2, height = 2, mcStepsPerFrame = 1, averagingFrames = 1,
      temperature = 1, magneticField = 0, randomizeLattice = False,
      loopMode = Some ''TSWEEP'', loopTargetValue = 3, loopIncrement = 1,
      frameCounter = 1, dataTable = [], loopBackward = False, loopStartValue = 1,
      magnetization = 0, orderParameter = 0, averageMagnetization = 0,
      averageOrderParameter = 0, averageOrderParamter = None,
      spin = [[1, 1], [1, 1]], exchangeField = [[4, 4], [4, 4]], looping = True,
      randomSource = (\<lambda>n. 0), randomCount = 0\<rparr>"

definition flipped_state :: ising where
  "flipped_state =
     lattice_state\<lparr>spin := [[-1, 1], [1, 1]], exchangeField := [[4, 0], [0, 4]],
       randomCount := 3\<rparr>"

text \<open>Every stored spin is \<open>1\<close> or \<open>- 1\<close>.\<close>

definition spins_valid :: "ising \<Rightarrow> bool" where
  "spins_valid s = (\<forall>r \<in> set (spin s). \<forall>x \<in> set r. x = 1 \<or> x = - 1)"

text \<open>
  A state on which every trial returns: the cache invariant holds, the lattice is not
  empty, and every draw lies in \<open>[0, 1)\<close>.
\<close>

definition sound_state :: "ising \<Rightarrow> bool" where
  "sound_state s =
     (cache_invariant s \<and> 0 < width s \<and> 0 < height s \<and>
      (\<forall>n. 0 \<le> randomSource s n \<and> randomSource s n < 1))"

text \<open>
  What a temperature sweep shows of a state (temperature, frame counter, the draw-loop
  flag, the number of table rows), how one simulation step changes it, given block
  size, target and increment, and how the draw loop does in \<open>k\<close> frames.
\<close>

definition sweep_obs :: "ising \<Rightarrow> real \<times> int \<times> bool \<times> nat" where
  "sweep_obs s = (temperature s, frameCounter s, looping s, length (dataTable s))"

definition sweep_next :: "int \<Rightarrow> real \<Rightarrow> real \<Rightarrow> real \<times> int \<times> bool \<times> nat \<Rightarrow> real \<times> int \<times> bool \<times> nat" where
  "sweep_next B target inc ob =
     (case ob of (T, fc, lp, n) \<Rightarrow>
        if B \<noteq> 0 \<and> fc mod B = 0
        then (if \<bar>T - target\<bar> < epsilon then (T, fc + 1, False, n + 1)
              else (T + inc, fc + 1, lp, n + 1))
        else (T, fc + 1, lp, n))"

fun sweep_frames :: "nat \<Rightarrow> int \<Rightarrow> real \<Rightarrow> real \<Rightarrow> real \<times> int \<times> bool \<times> nat \<Rightarrow> real \<times> int \<times> bool \<times> nat" where
  "sweep_frames 0 B target inc ob = ob"
| "sweep_frames (Suc k) B target inc ob =
     (if fst (snd (snd ob)) then sweep_frames k B target inc (sweep_next B target inc ob)
      else ob)"

definition sweep_static :: "ising \<Rightarrow> int \<times> real \<times> real \<Rightarrow> bool" where
  "sweep_static s p =
     (loopMode s = Some ''TSWEEP'' \<and>
      (averagingFrames s, loopTargetValue s, loopIncrement s) = p)"

text \<open>
  The sweep scenario from temperature 1 down to 0.5 in steps of 0.1 with blocks of 5
  frames, and a random source that always returns 0.
\<close>

definition sweep_settings :: settings where
  "sweep_settings =
     \<lparr>width = 10, height = 10, mcStepsPerFrame = 1, averagingFrames = 5,
      temperature = 1, magneticField = 0, randomizeLattice = False,
      loopMode = Some ''TSWEEP'', loopTargetValue = 1 / 2, loopIncrement = - (1 / 10)\<rparr>"

definition zero_draws :: "nat \<Rightarrow> real" where
  "zero_draws n = 0"

text \<open>
  Settings with a negative block size, a negative temperature and an unknown mode, the
  state the constructor builds from them, and settings with a lattice of width 0.
\<close>

definition bad_settings :: settings where
  "bad_settings =
     \<lparr>width = 2, height = 2, mcStepsPerFrame = 1, averagingFrames = - 1,
      temperature = - 1, magneticField = 0, randomizeLattice = False,
      loopMode = Some ''BOGUS'', loopTargetValue = 3, loopIncrement = 1\<rparr>"

definition empty_settings :: settings where
  "empty_settings =
     \<lparr>width = 0, height = 0, mcStepsPerFrame = 1, averagingFrames = 0,
      temperature = 0, magneticField = 0, randomizeLattice = False,
      loopMode = Some ''TSWEEP'', loopTargetValue = 3, loopIncrement = 1\<rparr>"

definition bad_state :: ising where
  "bad_state =
     \<lparr>width = 2, height = 2, mcStepsPerFrame = 1, averagingFrames = - 1,
      temperature = - 1, magneticField = 0, randomizeLattice = False,
      loopMode = Some ''BOGUS'', loopTargetValue = 3, loopIncrement = 1,
      frameCounter = 1, dataTable = [], loopBackward = False, loopStartValue = 0,
      magnetization = 0, orderParameter = 0, averageMagnetization = 0,
      averageOrderParameter = 0, averageOrderParamter = None,
      spin = [[1, 1], [1, 1]], exchangeField = [[4, 4], [4, 4]], looping = True,
      randomSource = zero_draws, randomCount = 0\<rparr>"

text \<open>
  A computed number \<open>a\<close> that carries at most \<open>k\<close> roundings of the exact \<open>x\<close>.
\<close>

definition accurate :: "nat \<Rightarrow> real \<Rightarrow> real \<Rightarrow> bool" where
  "accurate k a x = (\<bar>a - x\<bar> \<le> ((1 + unit_roundoff) ^ k - 1) * \<bar>x\<bar>)"

text \<open>
  The uniform lattice of 3 by 3 spins, as the constructor builds it without
  \<^verbatim>\<open>randomizeLattice\<close>.
\<close>

definition uniform3_settings :: settings where
  "uniform3_settings =
     \<lparr>width = 3, height = 3, mcStepsPerFrame = 0, averagingFrames = 1,
      temperature = 1, magneticField = 0, randomizeLattice = False,
      loopMode = Some ''TSWEEP'', loopTargetValue = 3, loopIncrement = 1\<rparr>"

definition uniform3_state :: ising where
  "uniform3_state =
     \<lparr>width = 3, height = 3, mcStepsPerFrame = 0, averagingFrames = 1,
      temperature = 1, magneticField = 0, randomizeLattice = False,
      loopMode = Some ''TSWEEP'', loopTargetValue = 3, loopIncrement = 1,
      frameCounter = 1, dataTable = [], loopBackward = False, loopStartValue = 1,
      magnetization = 0, orderParameter = 0, averageMagnetization = 0,
      averageOrderParameter = 0, averageOrderParamter = None,
      spin = [[1, 1, 1], [1, 1, 1], [1, 1, 1]],
      exchangeField = [[4, 4, 4], [4, 4, 4], [4, 4, 4]], looping = True,
      randomSource = zero_draws, randomCount = 0\<rparr>"

section \<open>What each method leaves alone\<close>

lemma trial_outside:
  "trial s = Inr s' \<Longrightarrow> outside_lattice s' = outside_lattice s"
  unfolding trial_def random_def flipSpin_def Let_def outside_lattice_def
  by (auto split: option.splits if_splits prod.splits)

lemma trials_outside:
  "trials n s = Inr s' \<Longrightarrow> outside_lattice s' = outside_lattice s"
proof (induction n arbitrary: s)
  case 0
  then show ?case by simp
next
  case (Suc n)
  then obtain s1 where t: "trial s = Inr s1" and r: "trials n s1 = Inr s'"
    by (auto split: sum.splits)
  from trial_outside[OF t] Suc.IH[OF r] show ?case by simp
qed

lemma scheduler_part_outside: "scheduler_part (outside_lattice s) = scheduler_part s"
  by (simp add: scheduler_part_def outside_lattice_def)

lemma metropolis_scheduler:
  assumes "metropolis s = Inr s'"
  shows "scheduler_part s' = scheduler_part s"
proof -
  have "outside_lattice s' = outside_lattice s"
    using assms trials_outside by (simp add: metropolis_def)
  then show ?thesis by (metis scheduler_part_outside)
qed

lemma update_scheduler: "scheduler_part (update s) = scheduler_part s"
  by (simp add: update_def Let_def scheduler_part_def updateDataTable_def)

lemma scheduler_partD:
  "scheduler_part a = scheduler_part b \<Longrightarrow>
     loopMode a = loopMode b \<and> averagingFrames a = averagingFrames b \<and>
     loopTargetValue a = loopTargetValue b \<and> loopStartValue a = loopStartValue b \<and>
     temperature a = temperature b \<and> magneticField a = magneticField b \<and>
     loopIncrement a = loopIncrement b \<and> loopBackward a = loopBackward b \<and>
     frameCounter a = frameCounter b \<and> looping a = looping b"
  by (simp add: scheduler_part_def)

lemma before_iterate:
  assumes "simulationStep s = Inr s'"
  obtains u where "s' = iterate u" "scheduler_part u = scheduler_part s"
proof -
  from assms obtain s1 where m: "metropolis s = Inr s1" and s': "s' = iterate (update s1)"
    by (auto simp: simulationStep_def split: sum.splits)
  have "scheduler_part (update s1) = scheduler_part s"
    using metropolis_scheduler[OF m] by (simp add: update_scheduler)
  with s' that show ?thesis by blast
qed

lemma simulationStep_no_trials:
  "mcStepsPerFrame s = 0 \<Longrightarrow> simulationStep s = Inr (iterate (update s))"
  by (simp add: simulationStep_def metropolis_def)

lemma iterate_looping:
  "looping (iterate u) \<longleftrightarrow> looping u \<and> \<not> (averagingCompleted u \<and> exitCondition u)"
  by (simp add: iterate_def Let_def terminate_def increment_def)

lemma iterate_loopStartValue: "loopStartValue (iterate u) = loopStartValue u"
  by (simp add: iterate_def Let_def terminate_def increment_def)

lemma Ising_loopStartValue:
  "Ising cfg rnd = Inr s0 \<Longrightarrow>
     loopStartValue s0 =
       (if take 1 (the (loopMode cfg)) = ''T'' then temperature cfg else magneticField cfg)"
  by (auto simp: Ising_def initialize_def Let_def split: option.splits)

section \<open>The loop turnaround (C4)\<close>

text \<open>
  C4. In the modes \<^verbatim>\<open>TLOOP\<close> and \<^verbatim>\<open>HLOOP\<close>, a call of \<open>increment\<close> made while the loop
  still runs forward and the active parameter is within \<open>epsilon\<close> of the target sets
  \<open>loopBackward\<close>, negates \<open>loopIncrement\<close> and, in the same call, adds the negated
  increment to the active parameter. A simulation step of a running loop ends the
  simulation exactly when a block is complete, the loop runs backward and the active
  parameter is within \<open>epsilon\<close> of \<open>loopStartValue\<close>. No step changes
  \<open>loopStartValue\<close>, and the constructor sets it to the initial temperature
  (\<^verbatim>\<open>TLOOP\<close>) or the initial field (\<^verbatim>\<open>HLOOP\<close>).
\<close>

theorem loop_turnaround:
  "(loopMode s = Some ''TLOOP'' \<and> \<not> loopBackward s \<and>
      \<bar>temperature s - loopTargetValue s\<bar> < epsilon \<longrightarrow>
      increment s = s\<lparr>loopBackward := True, loopIncrement := - loopIncrement s,
                       temperature := temperature s + (- loopIncrement s)\<rparr>) \<and>
   (loopMode s = Some ''HLOOP'' \<and> \<not> loopBackward s \<and>
      \<bar>magneticField s - loopTargetValue s\<bar> < epsilon \<longrightarrow>
      increment s = s\<lparr>loopBackward := True, loopIncrement := - loopIncrement s,
                       magneticField := magneticField s + (- loopIncrement s)\<rparr>) \<and>
   (loopMode s = Some ''TLOOP'' \<and> looping s \<and> simulationStep s = Inr s' \<longrightarrow>
      (\<not> looping s' \<longleftrightarrow>
         averagingCompleted s \<and> loopBackward s \<and>
         \<bar>temperature s - loopStartValue s\<bar> < epsilon)) \<and>
   (loopMode s = Some ''HLOOP'' \<and> looping s \<and> simulationStep s = Inr s' \<longrightarrow>
      (\<not> looping s' \<longleftrightarrow>
         averagingCompleted s \<and> loopBackward s \<and>
         \<bar>magneticField s - loopStartValue s\<bar> < epsilon)) \<and>
   (simulationStep s = Inr s' \<longrightarrow> loopStartValue s' = loopStartValue s) \<and>
   (Ising cfg rnd = Inr s \<and> loopMode cfg = Some ''TLOOP'' \<longrightarrow>
      loopStartValue s = temperature cfg) \<and>
   (Ising cfg rnd = Inr s \<and> loopMode cfg = Some ''HLOOP'' \<longrightarrow>
      loopStartValue s = magneticField cfg)"
proof (intro conjI impI)
  show "increment s = s\<lparr>loopBackward := True, loopIncrement := - loopIncrement s,
                       temperature := temperature s + (- loopIncrement s)\<rparr>"
    if "loopMode s = Some ''TLOOP'' \<and> \<not> loopBackward s \<and>
      \<bar>temperature s - loopTargetValue s\<bar> < epsilon"
    using that by (simp add: increment_def)
  show "increment s = s\<lparr>loopBackward := True, loopIncrement := - loopIncrement s,
                       magneticField := magneticField s + (- loopIncrement s)\<rparr>"
    if "loopMode s = Some ''HLOOP'' \<and> \<not> loopBackward s \<and>
      \<bar>magneticField s - loopTargetValue s\<bar> < epsilon"
    using that by (simp add: increment_def)
  show "(\<not> looping s') = (averagingCompleted s \<and> loopBackward s \<and>
         \<bar>temperature s - loopStartValue s\<bar> < epsilon)"
    if h: "loopMode s = Some ''TLOOP'' \<and> looping s \<and> simulationStep s = Inr s'"
  proof -
    from h obtain u where u: "s' = iterate u" "scheduler_part u = scheduler_part s"
      using before_iterate by blast
    from scheduler_partD[OF u(2)] h show ?thesis
      by (auto simp: u(1) iterate_looping averagingCompleted_def exitCondition_def)
  qed
  show "(\<not> looping s') = (averagingCompleted s \<and> loopBackward s \<and>
         \<bar>magneticField s - loopStartValue s\<bar> < epsilon)"
    if h: "loopMode s = Some ''HLOOP'' \<and> looping s \<and> simulationStep s = Inr s'"
  proof -
    from h obtain u where u: "s' = iterate u" "scheduler_part u = scheduler_part s"
      using before_iterate by blast
    from scheduler_partD[OF u(2)] h show ?thesis
      by (auto simp: u(1) iterate_looping averagingCompleted_def exitCondition_def)
  qed
  show "loopStartValue s' = loopStartValue s" if h: "simulationStep s = Inr s'"
  proof -
    from h obtain u where u: "s' = iterate u" "scheduler_part u = scheduler_part s"
      using before_iterate by blast
    from scheduler_partD[OF u(2)] show ?thesis
      by (simp add: u(1) iterate_loopStartValue)
  qed
  show "loopStartValue s = temperature cfg"
    if "Ising cfg rnd = Inr s \<and> loopMode cfg = Some ''TLOOP''"
    using that Ising_loopStartValue[of cfg rnd s] by simp
  show "loopStartValue s = magneticField cfg"
    if "Ising cfg rnd = Inr s \<and> loopMode cfg = Some ''HLOOP''"
    using that Ising_loopStartValue[of cfg rnd s] by simp
qed

text \<open>
  The theorem at the example: the turnaround at temperature 3 (and at field 3), the
  end of the loop back at 2, and the start value 2 (and 0) taken from the settings.
\<close>

theorem loop_turnaround_witness:
  "increment example_state =
     example_state\<lparr>loopBackward := True, loopIncrement := - (1 / 2), temperature := 5 / 2\<rparr> \<and>
   increment (example_state\<lparr>loopMode := Some ''HLOOP''\<rparr>) =
     example_state\<lparr>loopMode := Some ''HLOOP'', loopBackward := True,
       loopIncrement := - (1 / 2), magneticField := 5 / 2\<rparr> \<and>
   simulationStep (example_state\<lparr>loopBackward := True, temperature := 2\<rparr>) =
     Inr (iterate (update (example_state\<lparr>loopBackward := True, temperature := 2\<rparr>))) \<and>
   \<not> looping (iterate (update (example_state\<lparr>loopBackward := True, temperature := 2\<rparr>))) \<and>
   simulationStep (example_state\<lparr>loopMode := Some ''HLOOP'', loopBackward := True,
       magneticField := 2\<rparr>) =
     Inr (iterate (update (example_state\<lparr>loopMode := Some ''HLOOP'', loopBackward := True,
       magneticField := 2\<rparr>))) \<and>
   \<not> looping (iterate (update (example_state\<lparr>loopMode := Some ''HLOOP'',
       loopBackward := True, magneticField := 2\<rparr>))) \<and>
   loopStartValue (iterate (update example_state)) = 2 \<and>
   Ising example_settings (\<lambda>n. 0) = Inr (projr (Ising example_settings (\<lambda>n. 0))) \<and>
   loopStartValue (projr (Ising example_settings (\<lambda>n. 0))) = 2 \<and>
   Ising (example_settings\<lparr>loopMode := Some ''HLOOP''\<rparr>) (\<lambda>n. 0) =
     Inr (projr (Ising (example_settings\<lparr>loopMode := Some ''HLOOP''\<rparr>) (\<lambda>n. 0))) \<and>
   loopStartValue (projr (Ising (example_settings\<lparr>loopMode := Some ''HLOOP''\<rparr>) (\<lambda>n. 0))) = 0"
proof -
  let ?t = "example_state\<lparr>loopBackward := True, temperature := 2\<rparr>"
  let ?h = "example_state\<lparr>loopMode := Some ''HLOOP'', loopBackward := True,
       magneticField := 2\<rparr>"
  let ?c = "example_settings\<lparr>loopMode := Some ''HLOOP''\<rparr>"
  have st: "simulationStep ?t = Inr (iterate (update ?t))"
    by (rule simulationStep_no_trials) (simp add: example_state_def)
  have sh: "simulationStep ?h = Inr (iterate (update ?h))"
    by (rule simulationStep_no_trials) (simp add: example_state_def)
  have s0: "simulationStep example_state = Inr (iterate (update example_state))"
    by (rule simulationStep_no_trials) (simp add: example_state_def)
  have i1: "Ising example_settings (\<lambda>n. 0) = Inr (projr (Ising example_settings (\<lambda>n. 0)))"
    by (simp add: Ising_def example_settings_def)
  have i2: "Ising ?c (\<lambda>n. 0) = Inr (projr (Ising ?c (\<lambda>n. 0)))"
    by (simp add: Ising_def example_settings_def)
  have c1: "increment example_state =
     example_state\<lparr>loopBackward := True, loopIncrement := - (1 / 2), temperature := 5 / 2\<rparr>"
    using loop_turnaround[of example_state undefined undefined undefined]
    by (simp add: example_state_def epsilon_def)
  have c2: "increment (example_state\<lparr>loopMode := Some ''HLOOP''\<rparr>) =
     example_state\<lparr>loopMode := Some ''HLOOP'', loopBackward := True,
       loopIncrement := - (1 / 2), magneticField := 5 / 2\<rparr>"
    using loop_turnaround[of "example_state\<lparr>loopMode := Some ''HLOOP''\<rparr>"
        undefined undefined undefined]
    by (simp add: example_state_def epsilon_def)
  have c3: "\<not> looping (iterate (update ?t))"
    using loop_turnaround[of ?t "iterate (update ?t)" undefined undefined] st
    by (simp add: example_state_def epsilon_def averagingCompleted_def)
  have c4: "\<not> looping (iterate (update ?h))"
    using loop_turnaround[of ?h "iterate (update ?h)" undefined undefined] sh
    by (simp add: example_state_def epsilon_def averagingCompleted_def)
  have c5: "loopStartValue (iterate (update example_state)) = 2"
    using loop_turnaround[of example_state "iterate (update example_state)"
        undefined undefined] s0
    by (simp add: example_state_def)
  have c6: "loopStartValue (projr (Ising example_settings (\<lambda>n. 0))) = 2"
    using loop_turnaround[of "projr (Ising example_settings (\<lambda>n. 0))" undefined
        example_settings "\<lambda>n. 0"] i1
    by (simp add: example_settings_def)
  have c7: "loopStartValue (projr (Ising ?c (\<lambda>n. 0))) = 0"
    using loop_turnaround[of "projr (Ising ?c (\<lambda>n. 0))" undefined ?c "\<lambda>n. 0"] i2
    by (simp add: example_settings_def)
  from st sh i1 i2 c1 c2 c3 c4 c5 c6 c7 show ?thesis by blast
qed

section \<open>Construction without a loop mode (C7)\<close>

text \<open>
  C7. The usage notes of the source (lines 748 and 757) and its README give
  \<^verbatim>\<open>loopMode\<close> as one of the four mode strings or \<^verbatim>\<open>null\<close>, to be set to \<^verbatim>\<open>null\<close> when
  unused. With \<^verbatim>\<open>loopMode: null\<close> the constructor raises at line 804, before any lattice
  is built.
\<close>

theorem Ising_null_loopMode_raises:
  "Ising (example_settings\<lparr>loopMode := None\<rparr>) (\<lambda>n. 0) = Inl TypeError"
  by (simp add: Ising_def example_settings_def)

section \<open>The exchange field cache (C1)\<close>

subsection \<open>Periodic neighbours and cell updates\<close>

lemma wrap_next_eq:
  "0 \<le> k \<Longrightarrow> k < n \<Longrightarrow> wrap_next n k = (if k + 1 = n then 0 else k + 1)"
  by (simp add: wrap_next_def)

lemma wrap_prev_eq:
  assumes "0 \<le> k" "k < n"
  shows "wrap_prev n k = (if k = 0 then n - 1 else k - 1)"
proof (cases "k = 0")
  case True
  with assms show ?thesis by (simp add: wrap_prev_def zmod_minus1)
next
  case False
  have "(k - 1 + n) mod n = (k - 1) mod n" by simp
  with False assms show ?thesis by (simp add: wrap_prev_def)
qed

lemma wrap_range:
  assumes "0 \<le> k" "k < n"
  shows "0 \<le> wrap_next n k" "wrap_next n k < n" "0 \<le> wrap_prev n k" "wrap_prev n k < n"
  using assms by (simp_all add: wrap_next_eq wrap_prev_eq)

lemma wrap_next_prev:
  assumes "0 \<le> a" "a < n" "0 \<le> k" "k < n"
  shows "wrap_next n a = k \<longleftrightarrow> a = wrap_prev n k"
    and "wrap_prev n a = k \<longleftrightarrow> a = wrap_next n k"
  using assms by (auto simp: wrap_next_eq wrap_prev_eq)

lemma wf_grid_row:
  "wf_grid W H g \<Longrightarrow> 0 \<le> i \<Longrightarrow> i < W \<Longrightarrow> length (g ! nat i) = nat H"
  using nth_mem[of "nat i" g] by (auto simp: wf_grid_def)

lemma wf_grid_set_cell:
  assumes "wf_grid W H g"
  shows "wf_grid W H (set_cell g i j v)"
proof (cases "nat i < length g")
  case True
  then have "length (g ! nat i) = nat H" using assms by (simp add: wf_grid_def)
  with assms show ?thesis
    by (auto simp: wf_grid_def set_cell_def dest!: set_update_subset_insert[THEN subsetD])
next
  case False
  then have "g[nat i := (g ! nat i)[nat j := v]] = g" by (simp add: list_update_beyond)
  with assms show ?thesis by (simp add: set_cell_def)
qed

lemma cell_at_set_cell:
  assumes "wf_grid W H g" "0 \<le> i" "i < W" "0 \<le> j" "j < H" "0 \<le> a" "a < W" "0 \<le> b" "b < H"
  shows "cell_at (set_cell g i j v) a b = (if a = i \<and> b = j then v else cell_at g a b)"
proof -
  have len: "length g = nat W" using assms(1) by (simp add: wf_grid_def)
  have row: "length (g ! nat i) = nat H" using assms by (simp add: wf_grid_row)
  show ?thesis
  proof (cases "a = i")
    case True
    with assms len row show ?thesis
      by (auto simp: cell_at_def set_cell_def nth_list_update)
  next
    case False
    with assms have "nat a \<noteq> nat i" by simp
    with assms len show ?thesis
      by (simp add: cell_at_def set_cell_def False)
  qed
qed

lemma wf_grid_add_cell: "wf_grid W H g \<Longrightarrow> wf_grid W H (add_cell g i j v)"
  by (simp add: add_cell_def wf_grid_set_cell)

lemma cell_at_add_cell:
  assumes "wf_grid W H g" "0 \<le> i" "i < W" "0 \<le> j" "j < H" "0 \<le> a" "a < W" "0 \<le> b" "b < H"
  shows "cell_at (add_cell g i j v) a b = cell_at g a b + (if a = i \<and> b = j then v else 0)"
  using cell_at_set_cell[OF assms] by (simp add: add_cell_def)

subsection \<open>A flip keeps the cache exact\<close>

lemma cache_exactD:
  "cache_exact W H sp ef \<Longrightarrow> 0 \<le> a \<Longrightarrow> a < W \<Longrightarrow> 0 \<le> b \<Longrightarrow> b < H \<Longrightarrow>
     cell_at ef a b = sumOverNextNeighbors W H sp a b"
  unfolding cache_exact_def
  by (drule bspec[where x = "nat a"], simp, drule bspec[where x = "nat b"], simp, simp)

lemma cache_exactI:
  "(\<And>a b. 0 \<le> a \<Longrightarrow> a < W \<Longrightarrow> 0 \<le> b \<Longrightarrow> b < H \<Longrightarrow>
      cell_at ef a b = sumOverNextNeighbors W H sp a b) \<Longrightarrow> cache_exact W H sp ef"
  unfolding cache_exact_def by simp

lemma flip_grids_invariant:
  assumes wf: "wf_grid W H sp" "wf_grid W H ef"
    and ex: "cache_exact W H sp ef"
    and ij: "0 \<le> i" "i < W" "0 \<le> j" "j < H"
  shows "wf_grid W H (fst (flip_grids W H i j (sp, ef)))"
    and "wf_grid W H (snd (flip_grids W H i j (sp, ef)))"
    and "cache_exact W H (fst (flip_grids W H i j (sp, ef))) (snd (flip_grids W H i j (sp, ef)))"
proof -
  define s0 where "s0 = cell_at sp i j"
  define sp' where "sp' = set_cell sp i j (- s0)"
  define v where "v = 2 * cell_at sp' i j"
  define R where "R = wrap_next W i"
  define L where "L = wrap_prev W i"
  define Ab where "Ab = wrap_next H j"
  define Be where "Be = wrap_prev H j"
  define e1 where "e1 = add_cell ef R j v"
  define e2 where "e2 = add_cell e1 L j v"
  define e3 where "e3 = add_cell e2 i Ab v"
  define e4 where "e4 = add_cell e3 i Be v"
  have fg: "flip_grids W H i j (sp, ef) = (sp', e4)"
    by (simp add: flip_grids_def Let_def sp'_def s0_def v_def R_def L_def Ab_def Be_def
        e1_def e2_def e3_def e4_def)
  have rng: "0 \<le> R" "R < W" "0 \<le> L" "L < W" "0 \<le> Ab" "Ab < H" "0 \<le> Be" "Be < H"
    using ij by (simp_all add: R_def L_def Ab_def Be_def wrap_range)
  have wsp: "wf_grid W H sp'" using wf(1) by (simp add: sp'_def wf_grid_set_cell)
  have w1: "wf_grid W H e1" using wf(2) by (simp add: e1_def wf_grid_add_cell)
  have w2: "wf_grid W H e2" using w1 by (simp add: e2_def wf_grid_add_cell)
  have w3: "wf_grid W H e3" using w2 by (simp add: e3_def wf_grid_add_cell)
  have w4: "wf_grid W H e4" using w3 by (simp add: e4_def wf_grid_add_cell)
  have vv: "v = - 2 * s0"
    using cell_at_set_cell[OF wf(1) ij ij, of "- s0"] by (simp add: v_def sp'_def)
  have spc: "cell_at sp' x y = cell_at sp x y + (if x = i \<and> y = j then v else 0)"
    if "0 \<le> x" "x < W" "0 \<le> y" "y < H" for x y
    using cell_at_set_cell[OF wf(1) ij that, of "- s0"] by (simp add: sp'_def vv s0_def)
  have efc: "cell_at e4 a b =
      cell_at ef a b + (if a = R \<and> b = j then v else 0) + (if a = L \<and> b = j then v else 0)
        + (if a = i \<and> b = Ab then v else 0) + (if a = i \<and> b = Be then v else 0)"
    if ab: "0 \<le> a" "a < W" "0 \<le> b" "b < H" for a b
  proof -
    have "cell_at e4 a b = cell_at e3 a b + (if a = i \<and> b = Be then v else 0)"
      unfolding e4_def by (rule cell_at_add_cell[OF w3 ij(1,2) rng(7,8) ab])
    also have "cell_at e3 a b = cell_at e2 a b + (if a = i \<and> b = Ab then v else 0)"
      unfolding e3_def by (rule cell_at_add_cell[OF w2 ij(1,2) rng(5,6) ab])
    also have "cell_at e2 a b = cell_at e1 a b + (if a = L \<and> b = j then v else 0)"
      unfolding e2_def by (rule cell_at_add_cell[OF w1 rng(3,4) ij(3,4) ab])
    also have "cell_at e1 a b = cell_at ef a b + (if a = R \<and> b = j then v else 0)"
      unfolding e1_def by (rule cell_at_add_cell[OF wf(2) rng(1,2) ij(3,4) ab])
    finally show ?thesis by simp
  qed
  have exact: "cell_at e4 a b = sumOverNextNeighbors W H sp' a b"
    if ab: "0 \<le> a" "a < W" "0 \<le> b" "b < H" for a b
  proof -
    have nb: "0 \<le> wrap_next W a" "wrap_next W a < W" "0 \<le> wrap_prev W a" "wrap_prev W a < W"
      "0 \<le> wrap_next H b" "wrap_next H b < H" "0 \<le> wrap_prev H b" "wrap_prev H b < H"
      using ab by (simp_all add: wrap_range)
    have c1: "wrap_next W a = i \<longleftrightarrow> a = L"
      unfolding L_def by (rule wrap_next_prev(1)[OF ab(1,2) ij(1,2)])
    have c2: "wrap_prev W a = i \<longleftrightarrow> a = R"
      unfolding R_def by (rule wrap_next_prev(2)[OF ab(1,2) ij(1,2)])
    have c3: "wrap_next H b = j \<longleftrightarrow> b = Be"
      unfolding Be_def by (rule wrap_next_prev(1)[OF ab(3,4) ij(3,4)])
    have c4: "wrap_prev H b = j \<longleftrightarrow> b = Ab"
      unfolding Ab_def by (rule wrap_next_prev(2)[OF ab(3,4) ij(3,4)])
    have "sumOverNextNeighbors W H sp' a b =
        sumOverNextNeighbors W H sp a b + (if a = L \<and> b = j then v else 0)
          + (if a = R \<and> b = j then v else 0) + (if a = i \<and> b = Be then v else 0)
          + (if a = i \<and> b = Ab then v else 0)"
      unfolding sumOverNextNeighbors_def
      by (simp only: spc[OF nb(1,2) ab(3,4)] spc[OF nb(3,4) ab(3,4)]
          spc[OF ab(1,2) nb(5,6)] spc[OF ab(1,2) nb(7,8)] c1 c2 c3 c4)
    moreover have "cell_at ef a b = sumOverNextNeighbors W H sp a b"
      by (rule cache_exactD[OF ex ab])
    ultimately show ?thesis by (simp add: efc[OF ab])
  qed
  show "wf_grid W H (fst (flip_grids W H i j (sp, ef)))" by (simp add: fg wsp)
  show "wf_grid W H (snd (flip_grids W H i j (sp, ef)))" by (simp add: fg w4)
  show "cache_exact W H (fst (flip_grids W H i j (sp, ef))) (snd (flip_grids W H i j (sp, ef)))"
    unfolding fg fst_conv snd_conv by (rule cache_exactI) (rule exact)
qed

lemma js_row_Some: "js_row g i = Some r \<Longrightarrow> 0 \<le> i \<and> i < int (length g) \<and> r = g ! nat i"
  by (auto simp: js_row_def split: if_splits)

lemma js_elem_Some: "js_elem r j = Some v \<Longrightarrow> 0 \<le> j \<and> j < int (length r) \<and> v = r ! nat j"
  by (auto simp: js_elem_def split: if_splits)

lemma flipSpin_invariant:
  assumes inv: "cache_invariant s"
    and r: "js_row (spin s) i = Some sr" and e: "js_elem sr j = Some sp"
    and rc: "width s' = width s" "height s' = height s" "spin s' = spin s"
      "exchangeField s' = exchangeField s"
  shows "cache_invariant (flipSpin i j s')"
proof -
  from inv have wf: "wf_grid (width s) (height s) (spin s)"
      "wf_grid (width s) (height s) (exchangeField s)"
    and ex: "cache_exact (width s) (height s) (spin s) (exchangeField s)"
    by (simp_all add: cache_invariant_def)
  from js_row_Some[OF r] wf(1) have i: "0 \<le> i" "i < width s" and sr: "sr = spin s ! nat i"
    by (auto simp: wf_grid_def split: if_splits)
  from js_elem_Some[OF e] wf_grid_row[OF wf(1) i] sr have j: "0 \<le> j" "j < height s"
    by (auto split: if_splits)
  from flip_grids_invariant[OF wf ex i j] show ?thesis
    by (simp add: cache_invariant_def flipSpin_def Let_def rc)
qed

lemma cache_invariant_cong:
  "width s' = width s \<Longrightarrow> height s' = height s \<Longrightarrow> spin s' = spin s \<Longrightarrow>
   exchangeField s' = exchangeField s \<Longrightarrow> cache_invariant s' = cache_invariant s"
  by (simp add: cache_invariant_def)

lemma trial_invariant:
  assumes "cache_invariant s" "trial s = Inr s'"
  shows "cache_invariant s'"
proof -
  define i where "i = \<lfloor>of_int (width s) * randomSource s (randomCount s)\<rfloor>"
  define j where "j = \<lfloor>of_int (height s) * randomSource s (Suc (randomCount s))\<rfloor>"
  define s2 where "s2 = s\<lparr>randomCount := Suc (Suc (randomCount s))\<rparr>"
  define s3 where "s3 = s\<lparr>randomCount := Suc (Suc (Suc (randomCount s)))\<rparr>"
  have k2: "cache_invariant s2" and k3: "cache_invariant s3"
    using assms(1) by (simp_all add: s2_def s3_def cache_invariant_def)
  have f2: "cache_invariant (flipSpin i j s2)" and f3: "cache_invariant (flipSpin i j s3)"
    if "js_row (spin s) i = Some sr" "js_elem sr j = Some sp" for sr sp
    using flipSpin_invariant[OF assms(1) that] by (simp_all add: s2_def s3_def)
  from assms(2) have "s' = s3 \<or> (\<exists>sr sp. js_row (spin s) i = Some sr \<and> js_elem sr j = Some sp
      \<and> (s' = flipSpin i j s2 \<or> s' = flipSpin i j s3))"
    unfolding trial_def random_def Let_def i_def j_def s2_def s3_def
    by (auto split: option.splits if_splits prod.splits)
  with k3 f2 f3 show ?thesis by blast
qed

lemma trials_invariant:
  "cache_invariant s \<Longrightarrow> trials n s = Inr s' \<Longrightarrow> cache_invariant s'"
proof (induction n arbitrary: s)
  case 0
  then show ?case by simp
next
  case (Suc n)
  from Suc.prems(2) obtain s1 where t: "trial s = Inr s1" and r: "trials n s1 = Inr s'"
    by (auto split: sum.splits)
  from trial_invariant[OF Suc.prems(1) t] r show ?case by (rule Suc.IH)
qed

lemma update_invariant: "cache_invariant (update s) = cache_invariant s"
  by (rule cache_invariant_cong) (simp_all add: update_def Let_def updateDataTable_def)

lemma iterate_invariant: "cache_invariant (iterate s) = cache_invariant s"
  by (rule cache_invariant_cong)
    (simp_all add: iterate_def Let_def increment_def terminate_def)

lemma simulationStep_invariant:
  assumes "cache_invariant s" "simulationStep s = Inr s'"
  shows "cache_invariant s'"
proof -
  from assms(2) obtain s1 where m: "trials (mcStepsPerFrame s) s = Inr s1"
    and s': "s' = iterate (update s1)"
    by (auto simp: simulationStep_def metropolis_def split: sum.splits)
  from trials_invariant[OF assms(1) m] show ?thesis
    by (simp add: s' iterate_invariant update_invariant)
qed

lemma frames_invariant:
  "cache_invariant s \<Longrightarrow> frames n s = Inr s' \<Longrightarrow> cache_invariant s'"
proof (induction n arbitrary: s)
  case 0
  then show ?case by simp
next
  case (Suc n)
  show ?case
  proof (cases "looping s")
    case True
    with Suc.prems(2) obtain s1 where a: "simulationStep s = Inr s1"
      and b: "frames n s1 = Inr s'"
      by (auto split: sum.splits)
    from simulationStep_invariant[OF Suc.prems(1) a] b show ?thesis by (rule Suc.IH)
  next
    case False
    with Suc.prems show ?thesis by simp
  qed
qed

lemma initialize_invariant: "cache_invariant (initialize s)"
  by (simp add: cache_invariant_def initialize_def Let_def wf_grid_def cache_exact_def
      cell_at_def)

lemma Ising_invariant: "Ising cfg rnd = Inr s \<Longrightarrow> cache_invariant s"
  by (auto simp: Ising_def initialize_invariant split: option.splits)

subsection \<open>The example lattice\<close>

lemma upt2: "[0..<2] = [0, 1]"
  by (simp add: numeral_2_eq_2)

lemma Ising_lattice: "Ising lattice_settings (\<lambda>n. 0) = Inr lattice_state"
  by (simp add: Ising_def lattice_settings_def lattice_state_def initialize_def Let_def upt2
      initial_spin_def sumOverNextNeighbors_def wrap_next_def wrap_prev_def cell_at_def)

lemma trial_lattice:
  "trial lattice_state =
     Inr (lattice_state\<lparr>spin := [[-1, 1], [1, 1]], exchangeField := [[4, 0], [0, 4]],
       randomCount := 3\<rparr>)"
  by (simp add: trial_def random_def lattice_state_def js_row_def js_elem_def deltaE_of_def
      boltzmannAccept_def flipSpin_def flip_grids_def Let_def set_cell_def add_cell_def
      cell_at_def wrap_next_def wrap_prev_def)

lemma frames_lattice:
  "frames 1 lattice_state = Inr (iterate (update flipped_state))"
proof -
  have "looping lattice_state" "mcStepsPerFrame lattice_state = 1"
    by (simp_all add: lattice_state_def)
  then show ?thesis
    using trial_lattice by (simp add: simulationStep_def metropolis_def flipped_state_def)
qed

lemma cache_invariant_cells:
  assumes "cache_invariant s" "0 \<le> i" "i < width s" "0 \<le> j" "j < height s"
  shows "exchangeField s ! nat i ! nat j =
      spin s ! nat ((i + 1) mod width s) ! nat j +
      spin s ! nat ((i - 1 + width s) mod width s) ! nat j +
      spin s ! nat i ! nat ((j + 1) mod height s) +
      spin s ! nat i ! nat ((j - 1 + height s) mod height s)"
proof -
  from assms(1) have "cache_exact (width s) (height s) (spin s) (exchangeField s)"
    by (simp add: cache_invariant_def)
  from cache_exactD[OF this assms(2-5)] show ?thesis
    by (simp add: sumOverNextNeighbors_def cell_at_def wrap_next_def wrap_prev_def)
qed

subsection \<open>The invariant\<close>

text \<open>
  C1. In every reachable state, for every cell \<open>(i, j)\<close> of the grid,
  \<open>exchangeField[i][j]\<close> is the sum of the spins of the four neighbours with periodic
  boundaries. The constructor establishes this, every Metropolis trial that returns
  keeps it, whether it flips the spin or not, and so it holds after any number of
  frames followed by any number of trials of the next batch. The last part spells
  \<open>cache_invariant\<close> out in the source's index expressions.
\<close>

theorem exchangeField_cache_invariant:
  "(Ising cfg rnd = Inr s0 \<longrightarrow> cache_invariant s0) \<and>
   (cache_invariant s \<and> trial s = Inr s' \<longrightarrow> cache_invariant s') \<and>
   (Ising cfg rnd = Inr s0 \<and> frames n s0 = Inr s1 \<and> trials k s1 = Inr s2 \<longrightarrow>
      cache_invariant s2) \<and>
   (cache_invariant s \<longrightarrow>
      (\<forall>i j. 0 \<le> i \<and> i < width s \<and> 0 \<le> j \<and> j < height s \<longrightarrow>
         exchangeField s ! nat i ! nat j =
           spin s ! nat ((i + 1) mod width s) ! nat j +
           spin s ! nat ((i - 1 + width s) mod width s) ! nat j +
           spin s ! nat i ! nat ((j + 1) mod height s) +
           spin s ! nat i ! nat ((j - 1 + height s) mod height s)))"
proof (intro conjI impI allI)
  show "cache_invariant s0" if "Ising cfg rnd = Inr s0"
    using that by (rule Ising_invariant)
  show "cache_invariant s'" if "cache_invariant s \<and> trial s = Inr s'"
    using that trial_invariant by blast
  show "cache_invariant s2"
    if "Ising cfg rnd = Inr s0 \<and> frames n s0 = Inr s1 \<and> trials k s1 = Inr s2"
    using that Ising_invariant frames_invariant trials_invariant by blast
  show "exchangeField s ! nat i ! nat j =
      spin s ! nat ((i + 1) mod width s) ! nat j +
      spin s ! nat ((i - 1 + width s) mod width s) ! nat j +
      spin s ! nat i ! nat ((j + 1) mod height s) +
      spin s ! nat i ! nat ((j - 1 + height s) mod height s)"
    if "cache_invariant s" "0 \<le> i \<and> i < width s \<and> 0 \<le> j \<and> j < height s" for i j
    using that cache_invariant_cells by blast
qed

text \<open>
  The theorem on the example lattice: the constructed state, the state after the trial
  that flips cell \<open>(0, 0)\<close>, the state after the first frame, and the exchange field
  of cell \<open>(1, 0)\<close>, whose left and right neighbour are both the flipped cell.
\<close>

theorem exchangeField_cache_invariant_witness:
  "Ising lattice_settings (\<lambda>n. 0) = Inr lattice_state \<and>
   cache_invariant lattice_state \<and>
   trial lattice_state = Inr flipped_state \<and>
   cache_invariant flipped_state \<and>
   frames 1 lattice_state = Inr (iterate (update flipped_state)) \<and>
   trials 0 (iterate (update flipped_state)) = Inr (iterate (update flipped_state)) \<and>
   cache_invariant (iterate (update flipped_state)) \<and>
   exchangeField flipped_state ! 1 ! 0 = 0"
proof -
  note a = Ising_lattice
  have b: "trial lattice_state = Inr flipped_state"
    using trial_lattice by (simp add: flipped_state_def)
  note c = frames_lattice
  have d: "trials 0 (iterate (update flipped_state)) = Inr (iterate (update flipped_state))"
    by simp
  have i1: "cache_invariant lattice_state"
    using exchangeField_cache_invariant[of lattice_settings "\<lambda>n. 0" lattice_state] a
    by simp
  have i2: "cache_invariant flipped_state"
    using exchangeField_cache_invariant[of _ _ _ lattice_state flipped_state] i1 b
    by simp
  have i3: "cache_invariant (iterate (update flipped_state))"
    using exchangeField_cache_invariant[of lattice_settings "\<lambda>n. 0" lattice_state _ _ 1
        "iterate (update flipped_state)" 0 "iterate (update flipped_state)"] a c d
    by simp
  have "0 \<le> (1::int) \<and> 1 < width flipped_state \<and> 0 \<le> (0::int) \<and> 0 < height flipped_state"
    by (simp add: flipped_state_def lattice_state_def)
  with exchangeField_cache_invariant[of _ _ _ flipped_state] i2
  have "exchangeField flipped_state ! nat 1 ! nat 0 =
           spin flipped_state ! nat ((1 + 1) mod width flipped_state) ! nat 0 +
           spin flipped_state ! nat ((1 - 1 + width flipped_state) mod width flipped_state) ! nat 0 +
           spin flipped_state ! nat 1 ! nat ((0 + 1) mod height flipped_state) +
           spin flipped_state ! nat 1 ! nat ((0 - 1 + height flipped_state) mod height flipped_state)"
    by blast
  then have i4: "exchangeField flipped_state ! 1 ! 0 = 0"
    by (simp add: flipped_state_def lattice_state_def)
  from a b c d i1 i2 i3 i4 show ?thesis by blast
qed

section \<open>The inactive control parameter (C8)\<close>

lemma increment_inactive: "inactive_fixed s (increment s)"
  by (simp add: inactive_fixed_def increment_def temperature_modes_def field_modes_def Let_def)

lemma iterate_inactive: "inactive_fixed s (iterate s)"
  by (simp add: inactive_fixed_def iterate_def increment_def terminate_def
      temperature_modes_def field_modes_def Let_def)

lemma inactive_fixed_scheduler:
  "scheduler_part u = scheduler_part s \<Longrightarrow> inactive_fixed u s' \<Longrightarrow> inactive_fixed s s'"
  by (simp add: inactive_fixed_def scheduler_part_def)

lemma inactive_fixed_trans:
  "inactive_fixed a b \<Longrightarrow> inactive_fixed b c \<Longrightarrow> inactive_fixed a c"
  by (auto simp: inactive_fixed_def split: if_splits)

lemma simulationStep_inactive:
  assumes "simulationStep s = Inr s'" shows "inactive_fixed s s'"
proof -
  from assms obtain u where u: "s' = iterate u" "scheduler_part u = scheduler_part s"
    using before_iterate by blast
  show ?thesis using inactive_fixed_scheduler[OF u(2)] iterate_inactive[of u] u(1) by simp
qed

lemma frames_inactive: "frames n s = Inr s' \<Longrightarrow> inactive_fixed s s'"
proof (induction n arbitrary: s)
  case 0
  then show ?case by (simp add: inactive_fixed_def)
next
  case (Suc n)
  show ?case
  proof (cases "looping s")
    case True
    with Suc.prems obtain s1 where a: "simulationStep s = Inr s1" and b: "frames n s1 = Inr s'"
      by (auto split: sum.splits)
    from simulationStep_inactive[OF a] Suc.IH[OF b] show ?thesis
      by (rule inactive_fixed_trans)
  next
    case False
    with Suc.prems show ?thesis by (simp add: inactive_fixed_def)
  qed
qed

text \<open>
  C8. Under a schedule one control parameter is active and the other keeps its value:
  in the modes \<^verbatim>\<open>TSWEEP\<close> and \<^verbatim>\<open>TLOOP\<close> the magnetic field is unchanged by
  \<open>increment\<close>, by a simulation step and by any number of frames; in the modes
  \<^verbatim>\<open>HSWEEP\<close> and \<^verbatim>\<open>HLOOP\<close> the temperature is; with any other mode (another string, or
  \<^verbatim>\<open>null\<close>) both are. The mode itself never changes.
\<close>

theorem inactive_parameter_fixed:
  "inactive_fixed s (increment s) \<and>
   (simulationStep s = Inr s' \<longrightarrow> inactive_fixed s s') \<and>
   (frames n s = Inr s'' \<longrightarrow> inactive_fixed s s'')"
  using increment_inactive simulationStep_inactive frames_inactive by blast

lemma mcStepsPerFrame_iterate_update:
  "mcStepsPerFrame (iterate (update s)) = mcStepsPerFrame s"
  by (simp add: iterate_def update_def Let_def increment_def terminate_def updateDataTable_def)

lemma frames_no_trials:
  "mcStepsPerFrame s = 0 \<Longrightarrow> frames n s = Inr (projr (frames n s))"
proof (induction n arbitrary: s)
  case 0
  then show ?case by simp
next
  case (Suc n)
  have "mcStepsPerFrame (iterate (update s)) = 0"
    using Suc.prems by (simp add: mcStepsPerFrame_iterate_update)
  from Suc.IH[OF this] Suc.prems show ?case
    by (simp add: simulationStep_no_trials)
qed

text \<open>
  The theorem after three frames of the example in the modes \<^verbatim>\<open>TLOOP\<close>, \<^verbatim>\<open>HSWEEP\<close>
  and \<^verbatim>\<open>null\<close>, started with temperature 3 and field 3.
\<close>

theorem inactive_parameter_fixed_witness:
  "simulationStep example_state = Inr (iterate (update example_state)) \<and>
   magneticField (increment example_state) = 3 \<and>
   magneticField (iterate (update example_state)) = 3 \<and>
   frames 3 (example_state\<lparr>loopMode := Some ''TLOOP''\<rparr>) =
     Inr (projr (frames 3 (example_state\<lparr>loopMode := Some ''TLOOP''\<rparr>))) \<and>
   magneticField (projr (frames 3 (example_state\<lparr>loopMode := Some ''TLOOP''\<rparr>))) = 3 \<and>
   frames 3 (example_state\<lparr>loopMode := Some ''HSWEEP''\<rparr>) =
     Inr (projr (frames 3 (example_state\<lparr>loopMode := Some ''HSWEEP''\<rparr>))) \<and>
   temperature (projr (frames 3 (example_state\<lparr>loopMode := Some ''HSWEEP''\<rparr>))) = 3 \<and>
   frames 3 (example_state\<lparr>loopMode := None\<rparr>) =
     Inr (projr (frames 3 (example_state\<lparr>loopMode := None\<rparr>))) \<and>
   temperature (projr (frames 3 (example_state\<lparr>loopMode := None\<rparr>))) = 3 \<and>
   magneticField (projr (frames 3 (example_state\<lparr>loopMode := None\<rparr>))) = 3"
proof -
  let ?t = "example_state\<lparr>loopMode := Some ''TLOOP''\<rparr>"
  let ?h = "example_state\<lparr>loopMode := Some ''HSWEEP''\<rparr>"
  let ?n = "example_state\<lparr>loopMode := None\<rparr>"
  have s0: "simulationStep example_state = Inr (iterate (update example_state))"
    by (rule simulationStep_no_trials) (simp add: example_state_def)
  have frames_example: "frames 3 (example_state\<lparr>loopMode := m\<rparr>) =
     Inr (projr (frames 3 (example_state\<lparr>loopMode := m\<rparr>)))" for m
    by (rule frames_no_trials) (simp add: example_state_def)
  have c1: "magneticField (increment example_state) = 3"
    "magneticField (iterate (update example_state)) = 3"
    using inactive_parameter_fixed[of example_state "iterate (update example_state)"] s0
    by (simp_all add: inactive_fixed_def temperature_modes_def example_state_def)
  have c2: "magneticField (projr (frames 3 ?t)) = 3"
    using inactive_parameter_fixed[of ?t _ 3 "projr (frames 3 ?t)"] frames_example[of "Some ''TLOOP''"]
    by (simp add: inactive_fixed_def temperature_modes_def example_state_def)
  have c3: "temperature (projr (frames 3 ?h)) = 3"
    using inactive_parameter_fixed[of ?h _ 3 "projr (frames 3 ?h)"] frames_example[of "Some ''HSWEEP''"]
    by (simp add: inactive_fixed_def temperature_modes_def field_modes_def example_state_def)
  have c4: "temperature (projr (frames 3 ?n)) = 3" "magneticField (projr (frames 3 ?n)) = 3"
    using inactive_parameter_fixed[of ?n _ 3 "projr (frames 3 ?n)"] frames_example[of None]
    by (simp_all add: inactive_fixed_def temperature_modes_def field_modes_def example_state_def)
  from s0 c1 c2 c3 c4 frames_example show ?thesis by blast
qed

section \<open>Rounding to double precision\<close>

lemma binade_iff:
  assumes "x \<noteq> 0"
  shows "binade x = e \<longleftrightarrow> 2 powi e \<le> \<bar>x\<bar> \<and> \<bar>x\<bar> < 2 powi (e + 1)"
proof -
  have p: "(2::real) powr real_of_int k = 2 powi k" for k
    by (simp add: powr_real_of_int')
  have "binade x = e \<longleftrightarrow> 2 powr real_of_int e \<le> \<bar>x\<bar> \<and> \<bar>x\<bar> < 2 powr (real_of_int e + 1)"
    unfolding binade_def using assms floor_log_eq_powr_iff[of "\<bar>x\<bar>" 2 e] by simp
  also have "real_of_int e + 1 = real_of_int (e + 1)" by simp
  finally show ?thesis by (simp only: p)
qed

lemma binade_bounds:
  assumes "x \<noteq> 0"
  shows "2 powi binade x \<le> \<bar>x\<bar>" "\<bar>x\<bar> < 2 powi (binade x + 1)"
  using binade_iff[OF assms, of "binade x"] by simp_all

lemma round_half_even_error: "\<bar>of_int (round_half_even y) - y\<bar> \<le> 1 / 2"
proof -
  have "of_int \<lfloor>y\<rfloor> \<le> y" "y < of_int \<lfloor>y\<rfloor> + 1" by linarith+
  then show ?thesis by (auto simp: round_half_even_def Let_def)
qed

lemma round_half_even_of_int: "round_half_even (of_int n) = n"
  by (simp add: round_half_even_def)

lemma fl_0: "fl 0 = 0"
  by (simp add: fl_def)

lemma fl_eval:
  assumes "2 powi e \<le> \<bar>x\<bar>" "\<bar>x\<bar> < 2 powi (e + 1)"
  shows "fl x = of_int (round_half_even (x / 2 powi (e - 52))) * 2 powi (e - 52)"
proof -
  have "0 < (2::real) powi e" by simp
  with assms(1) have "0 < \<bar>x\<bar>" by linarith
  then have x: "x \<noteq> 0" by simp
  with assms have "binade x = e" by (simp add: binade_iff)
  with x show ?thesis by (simp add: fl_def)
qed

lemma fl_error: "\<bar>fl x - x\<bar> \<le> unit_roundoff * \<bar>x\<bar>"
proof (cases "x = 0")
  case True
  then show ?thesis by (simp add: fl_0)
next
  case False
  define e where "e = binade x"
  define q where "q = (2::real) powi (e - 52)"
  have q: "0 < q" by (simp add: q_def)
  have lo: "2 powi e \<le> \<bar>x\<bar>" unfolding e_def by (rule binade_bounds(1)[OF False])
  have "fl x - x = (of_int (round_half_even (x / q)) - x / q) * q"
    using False q by (simp add: fl_def e_def q_def algebra_simps)
  then have "\<bar>fl x - x\<bar> = \<bar>of_int (round_half_even (x / q)) - x / q\<bar> * q"
    using q by (simp add: abs_mult)
  also have "\<dots> \<le> 1 / 2 * q"
    using round_half_even_error[of "x / q"] q by (intro mult_right_mono) simp_all
  also have "1 / 2 * q = unit_roundoff * 2 powi e"
    by (simp add: q_def unit_roundoff_def power_int_diff)
  also have "\<dots> \<le> unit_roundoff * \<bar>x\<bar>"
    using lo by (intro mult_left_mono) (simp_all add: unit_roundoff_def)
  finally show ?thesis .
qed

lemma fl_exact:
  assumes "\<bar>m\<bar> < 2 ^ 53"
  shows "fl (of_int m * 2 powi k) = of_int m * 2 powi k"
proof (cases "m = 0")
  case True
  then show ?thesis by (simp add: fl_0)
next
  case False
  define x where "x = real_of_int m * 2 powi k"
  have x: "x \<noteq> 0" using False by (simp add: x_def)
  define e where "e = binade x"
  have "2 powi e \<le> \<bar>x\<bar>" unfolding e_def by (rule binade_bounds(1)[OF x])
  also have "\<bar>x\<bar> = \<bar>real_of_int m\<bar> * 2 powi k" by (simp add: x_def abs_mult)
  also have "\<dots> < 2 ^ 53 * 2 powi k"
  proof -
    have "real_of_int \<bar>m\<bar> < real_of_int (2 ^ 53)" using assms by (simp only: of_int_less_iff)
    then show ?thesis by simp
  qed
  also have "\<dots> = 2 powi (53 + k)" by (simp add: power_int_add)
  finally have lt: "(2::real) powi e < 2 powi (53 + k)" .
  have "e < 53 + k"
  proof (rule ccontr)
    assume "\<not> e < 53 + k"
    then have "53 + k \<le> e" by simp
    from power_int_increasing[OF this, of "2::real"] lt show False by simp
  qed
  then obtain d where d: "k - (e - 52) = int d"
    using zero_le_imp_eq_int[of "k - (e - 52)"] by auto
  have "x / 2 powi (e - 52) = real_of_int m * 2 powi (k - (e - 52))"
    by (simp add: x_def power_int_diff)
  also have "\<dots> = real_of_int (m * 2 ^ d)" by (simp add: d)
  finally have "round_half_even (x / 2 powi (e - 52)) = m * 2 ^ d"
    by (simp only: round_half_even_of_int)
  then have "fl x = real_of_int (m * 2 ^ d) * 2 powi (e - 52)"
    using x by (simp add: fl_def e_def)
  also have "\<dots> = real_of_int m * (2 powi int d * 2 powi (e - 52))" by simp
  also have "2 powi int d * 2 powi (e - 52) = (2::real) powi k"
    unfolding d[symmetric] by (simp add: power_int_add[symmetric])
  finally show ?thesis by (simp add: x_def)
qed

lemma unit_roundoff_pos: "0 < unit_roundoff"
  by (simp add: unit_roundoff_def)

lemma growth_ge_1: "1 \<le> (1 + unit_roundoff) ^ k"
  using unit_roundoff_pos by (intro one_le_power) simp

lemma growth_mono: "j \<le> k \<Longrightarrow> (1 + unit_roundoff) ^ j \<le> (1 + unit_roundoff) ^ k"
  using unit_roundoff_pos by (intro power_increasing) simp_all

lemma accurate_refl: "accurate 0 x x"
  by (simp add: accurate_def)

lemma accurate_abs:
  assumes "accurate k a x"
  shows "\<bar>a\<bar> \<le> (1 + unit_roundoff) ^ k * \<bar>x\<bar>"
proof -
  have "\<bar>a\<bar> \<le> \<bar>a - x\<bar> + \<bar>x\<bar>" by linarith
  also have "\<dots> \<le> ((1 + unit_roundoff) ^ k - 1) * \<bar>x\<bar> + \<bar>x\<bar>"
    using assms by (simp add: accurate_def)
  finally show ?thesis by (simp add: algebra_simps)
qed

lemma accurate_mono:
  assumes "j \<le> k" "accurate j a x"
  shows "accurate k a x"
proof -
  have "((1 + unit_roundoff) ^ j - 1) * \<bar>x\<bar> \<le> ((1 + unit_roundoff) ^ k - 1) * \<bar>x\<bar>"
    using growth_mono[OF assms(1)] by (intro mult_right_mono) simp_all
  with assms(2) show ?thesis unfolding accurate_def by linarith
qed

lemma accurate_fl:
  assumes "accurate k a x"
  shows "accurate (Suc k) (fl a) x"
proof -
  let ?P = "(1 + unit_roundoff) ^ k"
  have "\<bar>fl a - x\<bar> \<le> \<bar>fl a - a\<bar> + \<bar>a - x\<bar>" by linarith
  also have "\<dots> \<le> unit_roundoff * \<bar>a\<bar> + (?P - 1) * \<bar>x\<bar>"
    using fl_error[of a] assms by (simp add: accurate_def)
  also have "\<dots> \<le> unit_roundoff * (?P * \<bar>x\<bar>) + (?P - 1) * \<bar>x\<bar>"
    using accurate_abs[OF assms] unit_roundoff_pos by (simp add: mult_left_mono)
  also have "\<dots> = ((1 + unit_roundoff) ^ Suc k - 1) * \<bar>x\<bar>"
    by (simp add: algebra_simps)
  finally show ?thesis by (simp only: accurate_def)
qed

lemma accurate_mult:
  assumes "accurate j a x" "accurate k b y"
  shows "accurate (j + k) (a * b) (x * y)"
proof -
  let ?P = "(1 + unit_roundoff) ^ j" and ?Q = "(1 + unit_roundoff) ^ k"
  have P: "0 \<le> ?P - 1" and Q: "0 \<le> ?Q - 1" using growth_ge_1 by simp_all
  have "a * b - x * y = (a - x) * b + x * (b - y)" by (simp add: algebra_simps)
  then have "\<bar>a * b - x * y\<bar> \<le> \<bar>a - x\<bar> * \<bar>b\<bar> + \<bar>x\<bar> * \<bar>b - y\<bar>"
    by (metis abs_mult abs_triangle_ineq)
  also have "\<dots> \<le> ((?P - 1) * \<bar>x\<bar>) * (?Q * \<bar>y\<bar>) + \<bar>x\<bar> * ((?Q - 1) * \<bar>y\<bar>)"
  proof (intro add_mono mult_mono)
    show "\<bar>a - x\<bar> \<le> (?P - 1) * \<bar>x\<bar>" using assms(1) by (simp add: accurate_def)
    show "\<bar>b\<bar> \<le> ?Q * \<bar>y\<bar>" by (rule accurate_abs[OF assms(2)])
    show "\<bar>b - y\<bar> \<le> (?Q - 1) * \<bar>y\<bar>" using assms(2) by (simp add: accurate_def)
    show "0 \<le> (?P - 1) * \<bar>x\<bar>" using P by simp
  qed simp_all
  also have "\<dots> = (?P * ?Q - 1) * \<bar>x * y\<bar>"
    by (simp add: algebra_simps abs_mult)
  finally show ?thesis by (simp add: accurate_def power_add)
qed

lemma accurate_times:
  assumes "accurate k a x"
  shows "accurate k (c * a) (c * x)"
  using accurate_mult[OF accurate_refl[of c] assms] by simp

lemma accurate_divide:
  assumes "accurate k a x"
  shows "accurate k (a / c) (x / c)"
  using accurate_times[OF assms, of "1 / c"] by simp

text \<open>The running sum \<open>s = fl (s + a)\<close> over a list of terms.\<close>

lemma running_sum_error:
  assumes "\<And>c. c \<in> set cs \<Longrightarrow> accurate k (a c) (x c)"
  shows "\<bar>fold (\<lambda>c acc. fl (acc + a c)) cs 0 - (\<Sum>c\<leftarrow>cs. x c)\<bar>
           \<le> ((1 + unit_roundoff) ^ (length cs + k) - 1) * (\<Sum>c\<leftarrow>cs. \<bar>x c\<bar>)"
  using assms
proof (induction cs rule: rev_induct)
  case Nil
  then show ?case by simp
next
  case (snoc c cs)
  let ?u = unit_roundoff
  let ?s = "fold (\<lambda>c acc. fl (acc + a c)) cs 0"
  let ?t = "\<Sum>c\<leftarrow>cs. x c" and ?A = "\<Sum>c\<leftarrow>cs. \<bar>x c\<bar>"
  let ?P = "(1 + ?u) ^ (length cs + k)" and ?Q = "(1 + ?u) ^ k"
  have ih: "\<bar>?s - ?t\<bar> \<le> (?P - 1) * ?A" using snoc by simp
  have wc: "accurate k (a c) (x c)" using snoc.prems by simp
  have t: "\<bar>?t\<bar> \<le> ?A"
    using sum_list_abs[of "map x cs"] by (simp add: comp_def)
  have QP: "?Q \<le> ?P" by (rule growth_mono) simp
  have P1: "1 \<le> ?P" by (rule growth_ge_1)
  have ac: "\<bar>a c\<bar> \<le> ?Q * \<bar>x c\<bar>" by (rule accurate_abs[OF wc])
  have d: "\<bar>a c - x c\<bar> \<le> (?Q - 1) * \<bar>x c\<bar>" using wc by (simp add: accurate_def)
  have "\<bar>?s\<bar> \<le> \<bar>?s - ?t\<bar> + \<bar>?t\<bar>" by linarith
  with ih t have s: "\<bar>?s\<bar> \<le> ?P * ?A" by (simp add: algebra_simps)
  have "?Q * \<bar>x c\<bar> \<le> ?P * \<bar>x c\<bar>" using QP by (intro mult_right_mono) simp_all
  with ac have ac': "\<bar>a c\<bar> \<le> ?P * \<bar>x c\<bar>" by linarith
  have d': "\<bar>a c - x c\<bar> \<le> (?P - 1) * \<bar>x c\<bar>"
  proof -
    have "(?Q - 1) * \<bar>x c\<bar> \<le> (?P - 1) * \<bar>x c\<bar>" using QP by (intro mult_right_mono) simp_all
    with d show ?thesis by linarith
  qed
  have sum: "\<bar>?s + a c\<bar> \<le> ?P * (?A + \<bar>x c\<bar>)"
  proof -
    have "\<bar>?s + a c\<bar> \<le> \<bar>?s\<bar> + \<bar>a c\<bar>" by linarith
    with s ac' show ?thesis by (simp add: algebra_simps)
  qed
  have "\<bar>fl (?s + a c) - (?t + x c)\<bar> \<le>
      \<bar>fl (?s + a c) - (?s + a c)\<bar> + \<bar>?s - ?t\<bar> + \<bar>a c - x c\<bar>"
    by linarith
  also have "\<dots> \<le> ?u * (?P * (?A + \<bar>x c\<bar>)) + (?P - 1) * ?A + (?P - 1) * \<bar>x c\<bar>"
  proof -
    have "\<bar>fl (?s + a c) - (?s + a c)\<bar> \<le> ?u * \<bar>?s + a c\<bar>" by (rule fl_error)
    also have "\<dots> \<le> ?u * (?P * (?A + \<bar>x c\<bar>))"
      using sum unit_roundoff_pos by (simp add: mult_left_mono)
    finally show ?thesis using ih d' by linarith
  qed
  also have "\<dots> = ((1 + ?u) ^ (length (cs @ [c]) + k) - 1) * (?A + \<bar>x c\<bar>)"
    by (simp add: algebra_simps)
  finally show ?case by simp
qed

section \<open>Magnetization and order parameter (C9)\<close>

lemma fold_product:
  "fold (\<lambda>i acc. fold (g i) ys acc) xs a =
   fold (\<lambda>c. g (fst c) (snd c)) (List.product xs ys) a"
  by (induction xs arbitrary: a) (simp_all add: fold_map comp_def)

lemma sum_list_product:
  "(\<Sum>c\<leftarrow>List.product xs ys. h (fst c) (snd c)) = (\<Sum>i\<leftarrow>xs. \<Sum>j\<leftarrow>ys. (h i j :: real))"
  by (induction xs) (simp_all add: comp_def)

lemma sum_list_grid:
  "(\<Sum>c\<leftarrow>List.product [0..<n] [0..<m]. h (fst c) (snd c)) = (\<Sum>i<n. \<Sum>j<m. (h i j :: real))"
  by (simp add: sum_list_product interv_sum_list_conv_sum_set_nat atLeast0LessThan)

lemma lattice_sum_error:
  assumes "\<And>i j. i < nat (width s) \<Longrightarrow> j < nat (height s) \<Longrightarrow> accurate k (a i j) (x i j)"
  shows "\<bar>lattice_sum s a - (\<Sum>i<nat (width s). \<Sum>j<nat (height s). x i j)\<bar>
           \<le> ((1 + unit_roundoff) ^ (nat (width s) * nat (height s) + k) - 1) *
               (\<Sum>i<nat (width s). \<Sum>j<nat (height s). \<bar>x i j\<bar>)"
proof -
  let ?cs = "List.product [0..<nat (width s)] [0..<nat (height s)]"
  have ls: "lattice_sum s a = fold (\<lambda>c acc. fl (acc + a (fst c) (snd c))) ?cs 0"
    by (simp add: lattice_sum_def fold_product)
  have "\<bar>fold (\<lambda>c acc. fl (acc + a (fst c) (snd c))) ?cs 0 - (\<Sum>c\<leftarrow>?cs. x (fst c) (snd c))\<bar>
      \<le> ((1 + unit_roundoff) ^ (length ?cs + k) - 1) * (\<Sum>c\<leftarrow>?cs. \<bar>x (fst c) (snd c)\<bar>)"
    by (rule running_sum_error) (use assms in auto)
  then show ?thesis
    by (simp only: ls sum_list_grid[where h = x] sum_list_grid[where h = "\<lambda>i j. \<bar>x i j\<bar>"]
        length_product length_upt diff_zero)
qed

lemma double_sum_le_one:
  assumes "\<And>i j. i < n \<Longrightarrow> j < m \<Longrightarrow> \<bar>x i j\<bar> \<le> 1 / (real n * real m)"
  shows "(\<Sum>i<n. \<Sum>j<m. \<bar>x i j\<bar>) \<le> 1"
proof (cases "n = 0 \<or> m = 0")
  case True
  then show ?thesis by auto
next
  case False
  then have n: "0 < real n" and m: "0 < real m" by simp_all
  have inner: "(\<Sum>j<m. \<bar>x i j\<bar>) \<le> 1 / real n" if "i < n" for i
  proof -
    have "(\<Sum>j<m. \<bar>x i j\<bar>) \<le> (\<Sum>j<m. 1 / (real n * real m))"
      using assms[OF that] by (intro sum_mono) simp
    also have "\<dots> = 1 / real n" using m by simp
    finally show ?thesis .
  qed
  have "(\<Sum>i<n. \<Sum>j<m. \<bar>x i j\<bar>) \<le> (\<Sum>i<n. 1 / real n)"
    using inner by (intro sum_mono) simp
  also have "\<dots> = 1" using n by simp
  finally show ?thesis .
qed

lemma double_sum_abs:
  "\<bar>\<Sum>i<n. \<Sum>j<m. (x i j :: real)\<bar> \<le> (\<Sum>i<n. \<Sum>j<m. \<bar>x i j\<bar>)"
proof -
  have "\<bar>\<Sum>i<n. \<Sum>j<m. x i j\<bar> \<le> (\<Sum>i<n. \<bar>\<Sum>j<m. x i j\<bar>)" by (rule sum_abs)
  also have "\<dots> \<le> (\<Sum>i<n. \<Sum>j<m. \<bar>x i j\<bar>)" by (intro sum_mono sum_abs)
  finally show ?thesis .
qed

lemma spins_valid_cell:
  assumes "spins_valid s" "wf_grid (width s) (height s) (spin s)"
    "0 \<le> i" "i < width s" "0 \<le> j" "j < height s"
  shows "cell_at (spin s) i j = 1 \<or> cell_at (spin s) i j = - 1"
proof -
  have a: "nat i < length (spin s)" using assms by (simp add: wf_grid_def)
  then have r: "spin s ! nat i \<in> set (spin s)" by simp
  have "length (spin s ! nat i) = nat (height s)" using assms by (simp add: wf_grid_row)
  then have "spin s ! nat i ! nat j \<in> set (spin s ! nat i)" using assms by simp
  with assms(1) r show ?thesis unfolding spins_valid_def cell_at_def by blast
qed

lemma exchangeField_bound:
  assumes "spins_valid s" "cache_invariant s"
    "0 \<le> i" "i < width s" "0 \<le> j" "j < height s"
  shows "\<bar>cell_at (exchangeField s) i j\<bar> \<le> 4"
proof -
  from assms(2) have wf: "wf_grid (width s) (height s) (spin s)"
    and ex: "cache_exact (width s) (height s) (spin s) (exchangeField s)"
    by (simp_all add: cache_invariant_def)
  note sv = spins_valid_cell[OF assms(1) wf]
  have "\<bar>cell_at (spin s) (wrap_next (width s) i) j\<bar> \<le> 1"
    using sv[of "wrap_next (width s) i" j] assms by (auto simp: wrap_range)
  moreover have "\<bar>cell_at (spin s) (wrap_prev (width s) i) j\<bar> \<le> 1"
    using sv[of "wrap_prev (width s) i" j] assms by (auto simp: wrap_range)
  moreover have "\<bar>cell_at (spin s) i (wrap_next (height s) j)\<bar> \<le> 1"
    using sv[of i "wrap_next (height s) j"] assms by (auto simp: wrap_range)
  moreover have "\<bar>cell_at (spin s) i (wrap_prev (height s) j)\<bar> \<le> 1"
    using sv[of i "wrap_prev (height s) j"] assms by (auto simp: wrap_range)
  ultimately show ?thesis
    unfolding cache_exactD[OF ex assms(3-6)] sumOverNextNeighbors_def by linarith
qed

lemma update_observables:
  "magnetization (update s) =
     lattice_sum s (\<lambda>i j. fl (of_int (cell_at (spin s) (int i) (int j)) *
       fl (fl (1 / of_int (width s)) / of_int (height s))))"
  "orderParameter (update s) =
     lattice_sum s (\<lambda>i j. fl (fl (of_int (cell_at (exchangeField s) (int i) (int j)) *
         of_int (cell_at (spin s) (int i) (int j))) *
       fl (fl (fl (1 / of_int (width s)) / of_int (height s)) / 4)))"
  by (simp_all add: update_def Let_def updateDataTable_def)

lemma weight_accurate:
  "accurate 2 (fl (fl (1 / W) / H)) (1 / W / H)"
  "accurate 3 (fl (fl (fl (1 / W) / H) / 4)) (1 / W / H / 4)"
proof -
  have "accurate (Suc 0) (fl (1 / W)) (1 / W)" by (rule accurate_fl[OF accurate_refl])
  then have "accurate (Suc 0) (fl (1 / W) / H) (1 / W / H)" by (rule accurate_divide)
  then have w: "accurate (Suc (Suc 0)) (fl (fl (1 / W) / H)) (1 / W / H)" by (rule accurate_fl)
  then show "accurate 2 (fl (fl (1 / W) / H)) (1 / W / H)" by (simp add: numeral_2_eq_2)
  from w have "accurate (Suc (Suc 0)) (fl (fl (1 / W) / H) / 4) (1 / W / H / 4)"
    by (rule accurate_divide)
  then have "accurate (Suc (Suc (Suc 0))) (fl (fl (fl (1 / W) / H) / 4)) (1 / W / H / 4)"
    by (rule accurate_fl)
  then show "accurate 3 (fl (fl (fl (1 / W) / H) / 4)) (1 / W / H / 4)"
    by (simp add: numeral_3_eq_3)
qed

lemma magnetization_term_accurate:
  "accurate 3 (fl (c * fl (fl (1 / W) / H))) (c / (W * H))"
proof -
  have "accurate 2 (c * fl (fl (1 / W) / H)) (c * (1 / W / H))"
    by (rule accurate_times[OF weight_accurate(1)])
  then have "accurate (Suc 2) (fl (c * fl (fl (1 / W) / H))) (c * (1 / W / H))"
    by (rule accurate_fl)
  then show ?thesis by (simp add: numeral_3_eq_3 numeral_2_eq_2)
qed

lemma orderParameter_term_accurate:
  "accurate 5 (fl (fl (c * d) * fl (fl (fl (1 / W) / H) / 4))) (c * d / (4 * W * H))"
proof -
  have "accurate 1 (fl (c * d)) (c * d)"
    using accurate_fl[OF accurate_refl, of "c * d"] by simp
  from accurate_mult[OF this weight_accurate(2)]
  have "accurate 4 (fl (c * d) * fl (fl (fl (1 / W) / H) / 4)) (c * d * (1 / W / H / 4))"
    by simp
  then have acc: "accurate (Suc 4) (fl (fl (c * d) * fl (fl (fl (1 / W) / H) / 4)))
      (c * d * (1 / W / H / 4))"
    by (rule accurate_fl)
  have eq: "c * d * (1 / W / H / 4) = c * d / (4 * W * H)" by simp
  have e5: "Suc 4 = 5" by simp
  from acc show ?thesis unfolding eq e5 .
qed

text \<open>
  C9, as the code has it. Let \<open>M\<close> be the mean of the spins and \<open>E\<close> the mean of
  \<open>exchangeField * spin / 4\<close> over the lattice, both over the reals. When every spin is
  \<open>1\<close> or \<open>- 1\<close> and the cache is exact, \<open>M\<close> and \<open>E\<close> lie in \<open>[-1, 1]\<close>, and the doubles
  that \<^verbatim>\<open>update\<close> stores agree with them up to rounding: the magnetization differs from
  \<open>M\<close> by at most \<open>(1 + u) ^ (W * H + 3) - 1\<close> and the order parameter from \<open>E\<close> by at
  most \<open>(1 + u) ^ (W * H + 5) - 1\<close>, where \<open>u = 2 ^ - 53\<close>. The stored values are bounded
  by \<open>(1 + u) ^ (W * H + 3)\<close> and \<open>(1 + u) ^ (W * H + 5)\<close> in magnitude, not by 1.
\<close>

theorem observables_up_to_rounding:
  assumes "spins_valid s" "cache_invariant s"
  shows "let W = width s; H = height s; N = nat W * nat H;
             M = 1 / (of_int W * of_int H) *
                   (\<Sum>i<nat W. \<Sum>j<nat H. of_int (spin s ! i ! j));
             E = 1 / (4 * of_int W * of_int H) *
                   (\<Sum>i<nat W. \<Sum>j<nat H.
                      of_int (exchangeField s ! i ! j) * of_int (spin s ! i ! j))
         in \<bar>magnetization (update s) - M\<bar> \<le> (1 + unit_roundoff) ^ (N + 3) - 1 \<and>
            \<bar>orderParameter (update s) - E\<bar> \<le> (1 + unit_roundoff) ^ (N + 5) - 1 \<and>
            \<bar>M\<bar> \<le> 1 \<and> \<bar>E\<bar> \<le> 1 \<and>
            \<bar>magnetization (update s)\<bar> \<le> (1 + unit_roundoff) ^ (N + 3) \<and>
            \<bar>orderParameter (update s)\<bar> \<le> (1 + unit_roundoff) ^ (N + 5)"
proof -
  let ?W = "width s" and ?H = "height s"
  let ?N = "nat ?W * nat ?H"
  define xm where "xm i j = real_of_int (spin s ! i ! j) / (of_int ?W * of_int ?H)" for i j
  define xe where "xe i j = real_of_int (exchangeField s ! i ! j) * of_int (spin s ! i ! j) /
      (4 * of_int ?W * of_int ?H)" for i j
  define M where "M = 1 / (real_of_int ?W * of_int ?H) *
      (\<Sum>i<nat ?W. \<Sum>j<nat ?H. real_of_int (spin s ! i ! j))"
  define E where "E = 1 / (4 * real_of_int ?W * of_int ?H) *
      (\<Sum>i<nat ?W. \<Sum>j<nat ?H.
         real_of_int (exchangeField s ! i ! j) * of_int (spin s ! i ! j))"
  have M: "M = (\<Sum>i<nat ?W. \<Sum>j<nat ?H. xm i j)"
    by (simp add: M_def xm_def sum_distrib_left)
  have E: "E = (\<Sum>i<nat ?W. \<Sum>j<nat ?H. xe i j)"
    by (simp add: E_def xe_def sum_distrib_left)
  from assms(2) have wf: "wf_grid ?W ?H (spin s)" by (simp add: cache_invariant_def)
  have rng: "0 \<le> int i" "int i < ?W" "0 \<le> int j" "int j < ?H"
    if "i < nat ?W" "j < nat ?H" for i j
    using that by simp_all
  have pm: "\<bar>real_of_int (spin s ! i ! j)\<bar> = 1" if "i < nat ?W" "j < nat ?H" for i j
    using spins_valid_cell[OF assms(1) wf rng[OF that]] by (auto simp: cell_at_def)
  have ef: "\<bar>real_of_int (exchangeField s ! i ! j)\<bar> \<le> 4" if "i < nat ?W" "j < nat ?H" for i j
  proof -
    have "\<bar>exchangeField s ! i ! j\<bar> \<le> 4"
      using exchangeField_bound[OF assms(1,2) rng[OF that]] by (simp add: cell_at_def)
    then have "real_of_int \<bar>exchangeField s ! i ! j\<bar> \<le> real_of_int 4"
      by (simp only: of_int_le_iff)
    then show ?thesis by simp
  qed
  have den: "real_of_int ?W * real_of_int ?H = real (nat ?W) * real (nat ?H)"
    "0 < real (nat ?W) * real (nat ?H)"
    if "i < nat ?W" "j < nat ?H" for i j
    using that by simp_all
  have bm: "\<bar>xm i j\<bar> \<le> 1 / (real (nat ?W) * real (nat ?H))"
    if "i < nat ?W" "j < nat ?H" for i j
    using pm[OF that] den[OF that] by (simp add: xm_def abs_mult)
  have be: "\<bar>xe i j\<bar> \<le> 1 / (real (nat ?W) * real (nat ?H))"
    if "i < nat ?W" "j < nat ?H" for i j
  proof -
    have "\<bar>xe i j\<bar> = \<bar>real_of_int (exchangeField s ! i ! j)\<bar> /
        (4 * (real (nat ?W) * real (nat ?H)))"
      using pm[OF that] den[OF that] by (simp add: xe_def abs_mult)
    also have "\<dots> \<le> 4 / (4 * (real (nat ?W) * real (nat ?H)))"
      using ef[OF that] den(2)[OF that] by (intro divide_right_mono) simp_all
    finally show ?thesis by simp
  qed
  have sm: "(\<Sum>i<nat ?W. \<Sum>j<nat ?H. \<bar>xm i j\<bar>) \<le> 1"
    by (rule double_sum_le_one) (rule bm)
  have se: "(\<Sum>i<nat ?W. \<Sum>j<nat ?H. \<bar>xe i j\<bar>) \<le> 1"
    by (rule double_sum_le_one) (rule be)
  have M1: "\<bar>M\<bar> \<le> 1" unfolding M using double_sum_abs[where x = xm and n = "nat ?W" and m = "nat ?H"] sm by linarith
  have E1: "\<bar>E\<bar> \<le> 1" unfolding E using double_sum_abs[where x = xe and n = "nat ?W" and m = "nat ?H"] se by linarith
  have g3: "0 \<le> (1 + unit_roundoff) ^ (?N + 3) - 1"
    and g5: "0 \<le> (1 + unit_roundoff) ^ (?N + 5) - 1"
    using growth_ge_1 by simp_all
  have "\<bar>magnetization (update s) - M\<bar>
      \<le> ((1 + unit_roundoff) ^ (?N + 3) - 1) * (\<Sum>i<nat ?W. \<Sum>j<nat ?H. \<bar>xm i j\<bar>)"
    unfolding update_observables M
    by (rule lattice_sum_error)
      (simp add: xm_def cell_at_def magnetization_term_accurate)
  also have "\<dots> \<le> ((1 + unit_roundoff) ^ (?N + 3) - 1) * 1"
    using sm g3 by (rule mult_left_mono)
  finally have dm: "\<bar>magnetization (update s) - M\<bar> \<le> (1 + unit_roundoff) ^ (?N + 3) - 1"
    by simp
  have "\<bar>orderParameter (update s) - E\<bar>
      \<le> ((1 + unit_roundoff) ^ (?N + 5) - 1) * (\<Sum>i<nat ?W. \<Sum>j<nat ?H. \<bar>xe i j\<bar>)"
    unfolding update_observables E
    by (rule lattice_sum_error)
      (simp add: xe_def cell_at_def orderParameter_term_accurate)
  also have "\<dots> \<le> ((1 + unit_roundoff) ^ (?N + 5) - 1) * 1"
    using se g5 by (rule mult_left_mono)
  finally have de: "\<bar>orderParameter (update s) - E\<bar> \<le> (1 + unit_roundoff) ^ (?N + 5) - 1"
    by simp
  have am: "\<bar>magnetization (update s)\<bar> \<le> (1 + unit_roundoff) ^ (?N + 3)"
    using dm M1 by linarith
  have ae: "\<bar>orderParameter (update s)\<bar> \<le> (1 + unit_roundoff) ^ (?N + 5)"
    using de E1 by linarith
  from dm de M1 E1 am ae show ?thesis
    unfolding Let_def M_def E_def by blast
qed

lemma flipped_state_valid:
  "spins_valid flipped_state" "cache_invariant flipped_state"
  by (simp_all add: spins_valid_def cache_invariant_def wf_grid_def cache_exact_def
      flipped_state_def lattice_state_def sumOverNextNeighbors_def cell_at_def
      wrap_next_def wrap_prev_def numeral_2_eq_2 atLeast0_lessThan_Suc)

lemma sum_lessThan_2: "(\<Sum>i<(2::nat). f i) = f 0 + (f 1 :: real)"
  by (simp add: numeral_2_eq_2)

theorem observables_up_to_rounding_witness:
  "spins_valid flipped_state \<and> cache_invariant flipped_state \<and>
   \<bar>magnetization (update flipped_state) - 1 / 2\<bar> \<le> (1 + unit_roundoff) ^ 7 - 1 \<and>
   \<bar>orderParameter (update flipped_state)\<bar> \<le> (1 + unit_roundoff) ^ 9 - 1 \<and>
   \<bar>magnetization (update flipped_state)\<bar> \<le> (1 + unit_roundoff) ^ 7"
proof -
  note h = flipped_state_valid
  have "\<bar>magnetization (update flipped_state) - 1 / 2\<bar> \<le> (1 + unit_roundoff) ^ 7 - 1 \<and>
      \<bar>orderParameter (update flipped_state)\<bar> \<le> (1 + unit_roundoff) ^ 9 - 1 \<and>
      \<bar>magnetization (update flipped_state)\<bar> \<le> (1 + unit_roundoff) ^ 7"
    using observables_up_to_rounding[OF h]
    by (simp add: Let_def flipped_state_def lattice_state_def sum_lessThan_2)
  with h show ?thesis by blast
qed

subsection \<open>The uniform lattices in double precision\<close>

text \<open>The roundings that \<^verbatim>\<open>update\<close> performs on the uniform lattices of 2 by 2 and of
  3 by 3 spins.\<close>

lemma fl_uniform2_1: "fl (1 / 2) = 1 / 2"
  by (subst fl_eval[where e = "- 1"])
    (simp_all add: round_half_even_def Let_def power_int_minus)

lemma fl_uniform2_2: "fl (1 / 4) = 1 / 4"
  by (subst fl_eval[where e = "- 2"])
    (simp_all add: round_half_even_def Let_def power_int_minus)

lemma fl_uniform2_3: "fl (3 / 4) = 3 / 4"
  by (subst fl_eval[where e = "- 1"])
    (simp_all add: round_half_even_def Let_def power_int_minus)

lemma fl_uniform2_4: "fl (1) = 1"
  by (subst fl_eval[where e = "0"])
    (simp_all add: round_half_even_def Let_def power_int_minus)

lemma fl_uniform2_5: "fl (1 / 16) = 1 / 16"
  by (subst fl_eval[where e = "- 4"])
    (simp_all add: round_half_even_def Let_def power_int_minus)

lemma fl_uniform2_6: "fl (4) = 4"
  by (subst fl_eval[where e = "2"])
    (simp_all add: round_half_even_def Let_def power_int_minus)

lemmas fl_uniform2 = fl_uniform2_1 fl_uniform2_2 fl_uniform2_3 fl_uniform2_4 fl_uniform2_5 fl_uniform2_6

lemma upt3: "[0..<3] = [0, 1, 2]"
  by (simp add: numeral_3_eq_3)

lemma Ising_uniform3: "Ising uniform3_settings zero_draws = Inr uniform3_state"
  by (simp add: Ising_def uniform3_settings_def uniform3_state_def initialize_def Let_def
      upt3 initial_spin_def sumOverNextNeighbors_def wrap_next_def wrap_prev_def cell_at_def)

lemma fl_uniform3_1: "fl (1 / 3) = 6004799503160661 / 18014398509481984"
  by (subst fl_eval[where e = "- 2"])
    (simp_all add: round_half_even_def Let_def power_int_minus)

lemma fl_uniform3_2: "fl (2001599834386887 / 18014398509481984) = 2001599834386887 / 18014398509481984"
  by (subst fl_eval[where e = "- 4"])
    (simp_all add: round_half_even_def Let_def power_int_minus)

lemma fl_uniform3_3: "fl (2001599834386887 / 9007199254740992) = 2001599834386887 / 9007199254740992"
  by (subst fl_eval[where e = "- 3"])
    (simp_all add: round_half_even_def Let_def power_int_minus)

lemma fl_uniform3_4: "fl (6004799503160661 / 18014398509481984) = 6004799503160661 / 18014398509481984"
  by (subst fl_eval[where e = "- 2"])
    (simp_all add: round_half_even_def Let_def power_int_minus)

lemma fl_uniform3_5: "fl (2001599834386887 / 4503599627370496) = 2001599834386887 / 4503599627370496"
  by (subst fl_eval[where e = "- 2"])
    (simp_all add: round_half_even_def Let_def power_int_minus)

lemma fl_uniform3_6: "fl (10007999171934435 / 18014398509481984) = 2501999792983609 / 4503599627370496"
  by (subst fl_eval[where e = "- 1"])
    (simp_all add: round_half_even_def Let_def power_int_minus)

lemma fl_uniform3_7: "fl (12009599006321323 / 18014398509481984) = 3002399751580331 / 4503599627370496"
  by (subst fl_eval[where e = "- 1"])
    (simp_all add: round_half_even_def Let_def power_int_minus)

lemma fl_uniform3_8: "fl (14011198840708211 / 18014398509481984) = 3502799710177053 / 4503599627370496"
  by (subst fl_eval[where e = "- 1"])
    (simp_all add: round_half_even_def Let_def power_int_minus)

lemma fl_uniform3_9: "fl (16012798675095099 / 18014398509481984) = 4003199668773775 / 4503599627370496"
  by (subst fl_eval[where e = "- 1"])
    (simp_all add: round_half_even_def Let_def power_int_minus)

lemma fl_uniform3_10: "fl (18014398509481987 / 18014398509481984) = 4503599627370497 / 4503599627370496"
  by (subst fl_eval[where e = "0"])
    (simp_all add: round_half_even_def Let_def power_int_minus)

lemma fl_uniform3_11: "fl (2001599834386887 / 72057594037927936) = 2001599834386887 / 72057594037927936"
  by (subst fl_eval[where e = "- 6"])
    (simp_all add: round_half_even_def Let_def power_int_minus)

lemmas fl_uniform3 = fl_uniform3_1 fl_uniform3_2 fl_uniform3_3 fl_uniform3_4 fl_uniform3_5 fl_uniform3_6 fl_uniform3_7 fl_uniform3_8 fl_uniform3_9 fl_uniform3_10 fl_uniform3_11

lemma update_uniform3:
  "magnetization (update uniform3_state) = 4503599627370497 / 4503599627370496"
  "orderParameter (update uniform3_state) = 4503599627370497 / 4503599627370496"
  by (simp_all add: update_observables lattice_sum_def uniform3_state_def upt3 cell_at_def
      fl_uniform2 fl_uniform3)

text \<open>
  C9, the bound by 1. On the uniform lattice of 3 by 3 spins, the initial state of the
  constructor, \<^verbatim>\<open>update\<close> stores \<open>1 + 2 ^ - 52\<close> (printed \<^verbatim>\<open>1.0000000000000002\<close>) as
  the magnetization and as the order parameter: the weight is a double just below
  \<open>1 / 9\<close>, and the nine rounded additions overshoot by more than the weight falls
  short. Both values are larger than 1.
\<close>

theorem observables_exceed_one_counterexample:
  "Ising uniform3_settings zero_draws = Inr uniform3_state \<and>
   spins_valid uniform3_state \<and> cache_invariant uniform3_state \<and>
   magnetization (update uniform3_state) = 4503599627370497 / 4503599627370496 \<and>
   orderParameter (update uniform3_state) = 4503599627370497 / 4503599627370496 \<and>
   1 < magnetization (update uniform3_state) \<and>
   1 < orderParameter (update uniform3_state)"
proof -
  have v: "spins_valid uniform3_state" "cache_invariant uniform3_state"
    by (simp_all add: spins_valid_def cache_invariant_def wf_grid_def cache_exact_def
        uniform3_state_def sumOverNextNeighbors_def cell_at_def wrap_next_def wrap_prev_def
        numeral_3_eq_3 atLeast0_lessThan_Suc)
  from Ising_uniform3 v show ?thesis by (simp add: update_uniform3)
qed

section \<open>The Metropolis rule (C2)\<close>

lemma floor_scaled_range:
  assumes "0 < W" "0 \<le> r" "r < 1"
  shows "0 \<le> \<lfloor>real_of_int W * r\<rfloor>" "\<lfloor>real_of_int W * r\<rfloor> < W"
proof -
  have "0 \<le> real_of_int W * r" using assms by simp
  then show "0 \<le> \<lfloor>real_of_int W * r\<rfloor>" by simp
  have "real_of_int W * r < real_of_int W * 1"
    using assms by (intro mult_strict_left_mono) simp_all
  then show "\<lfloor>real_of_int W * r\<rfloor> < W" by (simp add: floor_less_iff)
qed

lemma floor_scaled_interval:
  assumes "0 < W" "0 \<le> k" "k < W"
  shows "{r. 0 \<le> r \<and> r < 1 \<and> \<lfloor>real_of_int W * r\<rfloor> = k} =
         {real_of_int k / real_of_int W ..< (real_of_int k + 1) / real_of_int W}"
proof -
  have W: "0 < real_of_int W" using assms by simp
  have lo: "0 \<le> real_of_int k / real_of_int W" using assms by simp
  have "real_of_int k + 1 \<le> real_of_int W" using assms by linarith
  then have hi: "(real_of_int k + 1) / real_of_int W \<le> 1" using W by (simp add: divide_le_eq)
  have eq: "\<lfloor>real_of_int W * r\<rfloor> = k \<longleftrightarrow>
      real_of_int k / real_of_int W \<le> r \<and> r < (real_of_int k + 1) / real_of_int W" for r
    using W by (simp add: floor_eq_iff pos_divide_le_eq pos_less_divide_eq mult.commute)
  show ?thesis
  proof (intro set_eqI iffI)
    fix r assume "r \<in> {r. 0 \<le> r \<and> r < 1 \<and> \<lfloor>real_of_int W * r\<rfloor> = k}"
    then show "r \<in> {real_of_int k / real_of_int W ..< (real_of_int k + 1) / real_of_int W}"
      using eq by simp
  next
    fix r assume a: "r \<in> {real_of_int k / real_of_int W ..< (real_of_int k + 1) / real_of_int W}"
    then have "0 \<le> r" "r < 1" using lo hi by auto
    with a eq show "r \<in> {r. 0 \<le> r \<and> r < 1 \<and> \<lfloor>real_of_int W * r\<rfloor> = k}" by simp
  qed
qed

lemma acceptance_interval:
  assumes "0 < T"
  shows "{r. 0 \<le> r \<and> r < 1 \<and> (0 \<le> dE \<or> boltzmannAccept r dE T)} =
           {0 ..< min 1 (exp (dE / T))}"
    and "0 \<le> min 1 (exp (dE / T))" and "min 1 (exp (dE / T)) \<le> 1"
proof -
  show "0 \<le> min 1 (exp (dE / T))" by simp
  show "min 1 (exp (dE / T)) \<le> 1" by simp
  show "{r. 0 \<le> r \<and> r < 1 \<and> (0 \<le> dE \<or> boltzmannAccept r dE T)} =
           {0 ..< min 1 (exp (dE / T))}"
  proof (cases "0 \<le> dE")
    case True
    then have "0 \<le> dE / T" using assms by simp
    then have "1 \<le> exp (dE / T)" by simp
    then have "min 1 (exp (dE / T)) = 1" by simp
    with True show ?thesis by auto
  next
    case False
    then have "dE / T < 0" using assms by (simp add: divide_neg_pos)
    then have lt: "exp (dE / T) < 1" by simp
    then have "min 1 (exp (dE / T)) = exp (dE / T)" by simp
    with False assms show ?thesis
      by (auto simp: boltzmannAccept_def dest: less_trans[OF _ lt])
  qed
qed

lemma flipSpin_negates:
  assumes "cache_invariant s" "0 \<le> i" "i < width s" "0 \<le> j" "j < height s"
  shows "spin (flipSpin i j s) ! nat i ! nat j = - spin s ! nat i ! nat j"
proof -
  from assms(1) have wf: "wf_grid (width s) (height s) (spin s)"
    by (simp add: cache_invariant_def)
  from cell_at_set_cell[OF wf assms(2-5) assms(2-5)] show ?thesis
    by (simp add: flipSpin_def flip_grids_def Let_def cell_at_def)
qed

lemma trial_in_range:
  assumes inv: "cache_invariant s" and pos: "0 < width s" "0 < height s"
    and rnd: "\<forall>n. 0 \<le> randomSource s n \<and> randomSource s n < 1"
  defines "c \<equiv> randomCount s"
  defines "i \<equiv> \<lfloor>of_int (width s) * randomSource s c\<rfloor>"
  defines "j \<equiv> \<lfloor>of_int (height s) * randomSource s (c + 1)\<rfloor>"
  defines "deltaE \<equiv> - 2 * of_int (spin s ! nat i ! nat j) *
      (of_int (exchangeField s ! nat i ! nat j) + magneticField s)"
  shows "0 \<le> i" "i < width s" "0 \<le> j" "j < height s"
    and "trial s = Inr
      (if 0 \<le> deltaE then flipSpin i j (s\<lparr>randomCount := c + 2\<rparr>)
       else if boltzmannAccept (randomSource s (c + 2)) deltaE (temperature s)
       then flipSpin i j (s\<lparr>randomCount := c + 3\<rparr>)
       else s\<lparr>randomCount := c + 3\<rparr>)"
proof -
  show i: "0 \<le> i" "i < width s"
    unfolding i_def using floor_scaled_range[OF pos(1)] rnd by blast+
  show j: "0 \<le> j" "j < height s"
    unfolding j_def using floor_scaled_range[OF pos(2)] rnd by blast+
  from inv have wf: "wf_grid (width s) (height s) (spin s)"
    "wf_grid (width s) (height s) (exchangeField s)"
    by (simp_all add: cache_invariant_def)
  have r1: "js_row (spin s) i = Some (spin s ! nat i)"
    using i wf(1) by (simp add: js_row_def wf_grid_def)
  have r2: "js_row (exchangeField s) i = Some (exchangeField s ! nat i)"
    using i wf(2) by (simp add: js_row_def wf_grid_def)
  have e1: "js_elem (spin s ! nat i) j = Some (spin s ! nat i ! nat j)"
    using j wf_grid_row[OF wf(1) i] by (simp add: js_elem_def)
  have e2: "js_elem (exchangeField s ! nat i) j = Some (exchangeField s ! nat i ! nat j)"
    using j wf_grid_row[OF wf(2) i] by (simp add: js_elem_def)
  have ij: "\<lfloor>of_int (width s) * randomSource s (randomCount s)\<rfloor> = i"
    "\<lfloor>of_int (height s) * randomSource s (Suc (randomCount s))\<rfloor> = j"
    by (simp_all add: i_def j_def c_def)
  show "trial s = Inr
      (if 0 \<le> deltaE then flipSpin i j (s\<lparr>randomCount := c + 2\<rparr>)
       else if boltzmannAccept (randomSource s (c + 2)) deltaE (temperature s)
       then flipSpin i j (s\<lparr>randomCount := c + 3\<rparr>)
       else s\<lparr>randomCount := c + 3\<rparr>)"
    unfolding trial_def random_def Let_def
    by (simp add: ij r1 r2 e1 e2 deltaE_of_def deltaE_def c_def numeral_2_eq_2
        numeral_3_eq_3)
qed

text \<open>
  C2. A trial on a well-formed lattice of positive size, at a positive temperature and
  with draws in \<open>[0, 1)\<close>, picks the cell \<open>(i, j)\<close> as the floors of width and height
  times the first two draws, which lies in the grid; it computes
  \<open>deltaE = - 2 * spin[i][j] * (exchangeField[i][j] + magneticField)\<close>; it flips the
  spin without a further draw when \<open>deltaE \<ge> 0\<close>, and otherwise flips it exactly when
  the third draw \<open>r\<close> satisfies \<open>r < exp (deltaE / temperature)\<close>; a flip negates
  \<open>spin[i][j]\<close>. The draws that select a given column (or row) \<open>k\<close> are an interval
  of length \<open>1 / W\<close>, the same for every \<open>k\<close>: a uniform draw picks each cell with
  the same probability. The draws in \<open>[0, 1)\<close> that lead to a flip are the interval from
  0 to \<open>min 1 (exp (deltaE / T))\<close>, whose length, the acceptance probability, lies
  between 0 and 1.
\<close>

theorem metropolis_trial_rule:
  "(cache_invariant s \<and> 0 < width s \<and> 0 < height s \<and> 0 < temperature s \<and>
      (\<forall>n. 0 \<le> randomSource s n \<and> randomSource s n < 1) \<longrightarrow>
      (let c = randomCount s;
           i = \<lfloor>of_int (width s) * randomSource s c\<rfloor>;
           j = \<lfloor>of_int (height s) * randomSource s (c + 1)\<rfloor>;
           r = randomSource s (c + 2);
           deltaE = - 2 * of_int (spin s ! nat i ! nat j) *
             (of_int (exchangeField s ! nat i ! nat j) + magneticField s)
       in 0 \<le> i \<and> i < width s \<and> 0 \<le> j \<and> j < height s \<and>
          trial s = Inr
            (if 0 \<le> deltaE then flipSpin i j (s\<lparr>randomCount := c + 2\<rparr>)
             else if r < exp (deltaE / temperature s)
             then flipSpin i j (s\<lparr>randomCount := c + 3\<rparr>)
             else s\<lparr>randomCount := c + 3\<rparr>) \<and>
          (\<forall>c'. spin (flipSpin i j (s\<lparr>randomCount := c'\<rparr>)) ! nat i ! nat j =
             - spin s ! nat i ! nat j))) \<and>
   (0 < W \<and> 0 \<le> k \<and> k < W \<longrightarrow>
      {r. 0 \<le> r \<and> r < 1 \<and> \<lfloor>real_of_int W * r\<rfloor> = k} =
        {real_of_int k / real_of_int W ..< (real_of_int k + 1) / real_of_int W}) \<and>
   (0 < (T::real) \<longrightarrow>
      {r. 0 \<le> r \<and> r < 1 \<and> (0 \<le> (dE::real) \<or> r < exp (dE / T))} =
        {0 ..< min 1 (exp (dE / T))} \<and>
      0 \<le> min 1 (exp (dE / T)) \<and> min 1 (exp (dE / T)) \<le> 1)"
proof (intro conjI impI)
  assume h: "cache_invariant s \<and> 0 < width s \<and> 0 < height s \<and> 0 < temperature s \<and>
      (\<forall>n. 0 \<le> randomSource s n \<and> randomSource s n < 1)"
  then have inv: "cache_invariant s" and pos: "0 < width s" "0 < height s"
    and T: "temperature s \<noteq> 0" and rnd: "\<forall>n. 0 \<le> randomSource s n \<and> randomSource s n < 1"
    by simp_all
  note t = trial_in_range[OF inv pos rnd]
  have neg: "spin (flipSpin i j (s\<lparr>randomCount := c'\<rparr>)) ! nat i ! nat j = - spin s ! nat i ! nat j"
    if "0 \<le> i" "i < width s" "0 \<le> j" "j < height s" for i j c'
  proof -
    have "cache_invariant (s\<lparr>randomCount := c'\<rparr>)"
      using inv by (simp add: cache_invariant_def)
    from flipSpin_negates[OF this, of i j] that show ?thesis by simp
  qed
  show "let c = randomCount s;
           i = \<lfloor>of_int (width s) * randomSource s c\<rfloor>;
           j = \<lfloor>of_int (height s) * randomSource s (c + 1)\<rfloor>;
           r = randomSource s (c + 2);
           deltaE = - 2 * of_int (spin s ! nat i ! nat j) *
             (of_int (exchangeField s ! nat i ! nat j) + magneticField s)
       in 0 \<le> i \<and> i < width s \<and> 0 \<le> j \<and> j < height s \<and>
          trial s = Inr
            (if 0 \<le> deltaE then flipSpin i j (s\<lparr>randomCount := c + 2\<rparr>)
             else if r < exp (deltaE / temperature s)
             then flipSpin i j (s\<lparr>randomCount := c + 3\<rparr>)
             else s\<lparr>randomCount := c + 3\<rparr>) \<and>
          (\<forall>c'. spin (flipSpin i j (s\<lparr>randomCount := c'\<rparr>)) ! nat i ! nat j =
             - spin s ! nat i ! nat j)"
    unfolding Let_def
  proof (intro conjI allI)
    show "trial s = Inr
       (if 0 \<le> - 2 * real_of_int (spin s ! nat \<lfloor>real_of_int (width s) * randomSource s (randomCount s)\<rfloor> !
                    nat \<lfloor>real_of_int (height s) * randomSource s (randomCount s + 1)\<rfloor>) *
                (real_of_int (exchangeField s ! nat \<lfloor>real_of_int (width s) * randomSource s (randomCount s)\<rfloor> !
                    nat \<lfloor>real_of_int (height s) * randomSource s (randomCount s + 1)\<rfloor>) +
                 magneticField s)
        then flipSpin \<lfloor>real_of_int (width s) * randomSource s (randomCount s)\<rfloor>
              \<lfloor>real_of_int (height s) * randomSource s (randomCount s + 1)\<rfloor>
              (s\<lparr>randomCount := randomCount s + 2\<rparr>)
        else if randomSource s (randomCount s + 2)
                < exp (- 2 * real_of_int (spin s ! nat \<lfloor>real_of_int (width s) * randomSource s (randomCount s)\<rfloor> !
                    nat \<lfloor>real_of_int (height s) * randomSource s (randomCount s + 1)\<rfloor>) *
                (real_of_int (exchangeField s ! nat \<lfloor>real_of_int (width s) * randomSource s (randomCount s)\<rfloor> !
                    nat \<lfloor>real_of_int (height s) * randomSource s (randomCount s + 1)\<rfloor>) +
                 magneticField s) / temperature s)
             then flipSpin \<lfloor>real_of_int (width s) * randomSource s (randomCount s)\<rfloor>
                   \<lfloor>real_of_int (height s) * randomSource s (randomCount s + 1)\<rfloor>
                   (s\<lparr>randomCount := randomCount s + 3\<rparr>)
             else s\<lparr>randomCount := randomCount s + 3\<rparr>)"
      unfolding t(5) using T by (simp add: boltzmannAccept_def)
  qed (use t(1-4) neg in simp_all)
next
  show "{r. 0 \<le> r \<and> r < 1 \<and> \<lfloor>real_of_int W * r\<rfloor> = k} =
        {real_of_int k / real_of_int W ..< (real_of_int k + 1) / real_of_int W}"
    if "0 < W \<and> 0 \<le> k \<and> k < W"
    using that floor_scaled_interval by blast
next
  assume T: "0 < T"
  then have "boltzmannAccept r dE T = (r < exp (dE / T))" for r
    by (simp add: boltzmannAccept_def)
  with acceptance_interval(1)[OF T, of dE]
  show "{r. 0 \<le> r \<and> r < 1 \<and> (0 \<le> dE \<or> r < exp (dE / T))} = {0 ..< min 1 (exp (dE / T))}"
    by simp
  show "0 \<le> min 1 (exp (dE / T))" "min 1 (exp (dE / T)) \<le> 1" by simp_all
qed

text \<open>
  The theorem on the example lattice: the first trial picks cell \<open>(0, 0)\<close>, finds
  \<open>deltaE = - 8\<close> and flips, since the draw 0 is below \<open>exp (- 8)\<close>.
\<close>

lemma lattice_state_valid:
  "cache_invariant lattice_state" "0 < width lattice_state" "0 < height lattice_state"
  "0 < temperature lattice_state"
  "\<forall>n. 0 \<le> randomSource lattice_state n \<and> randomSource lattice_state n < 1"
  by (simp_all add: cache_invariant_def wf_grid_def cache_exact_def
      lattice_state_def sumOverNextNeighbors_def cell_at_def
      wrap_next_def wrap_prev_def numeral_2_eq_2 atLeast0_lessThan_Suc)

theorem metropolis_trial_rule_witness:
  "cache_invariant lattice_state \<and> 0 < width lattice_state \<and> 0 < height lattice_state \<and>
   0 < temperature lattice_state \<and>
   (\<forall>n. 0 \<le> randomSource lattice_state n \<and> randomSource lattice_state n < 1) \<and>
   trial lattice_state = Inr flipped_state \<and>
   spin flipped_state ! 0 ! 0 = - spin lattice_state ! 0 ! 0 \<and>
   {r. 0 \<le> r \<and> r < 1 \<and> \<lfloor>real_of_int 2 * r\<rfloor> = 1} = {1 / 2 ..< 1} \<and>
   {r. 0 \<le> r \<and> r < 1 \<and> ((0::real) \<le> - 8 \<or> r < exp (- 8 / (1::real)))} =
     {0 ..< min 1 (exp (- 8 / (1::real)))}"
proof -
  note h = lattice_state_valid
  from h have hyp: "cache_invariant lattice_state \<and> 0 < width lattice_state \<and>
      0 < height lattice_state \<and> 0 < temperature lattice_state \<and>
      (\<forall>n. 0 \<le> randomSource lattice_state n \<and> randomSource lattice_state n < 1)"
    by blast
  have t: "trial lattice_state = Inr flipped_state"
    using metropolis_trial_rule[of lattice_state] hyp
    by (simp add: Let_def lattice_state_def flipped_state_def flipSpin_def flip_grids_def
        set_cell_def add_cell_def cell_at_def wrap_next_def wrap_prev_def)
  have n: "spin flipped_state ! 0 ! 0 = - spin lattice_state ! 0 ! 0"
    using metropolis_trial_rule[of lattice_state] hyp
    by (simp add: Let_def lattice_state_def flipped_state_def)
  have a: "{r. 0 \<le> r \<and> r < 1 \<and> \<lfloor>real_of_int 2 * r\<rfloor> = 1} = {1 / 2 ..< 1}"
    using metropolis_trial_rule[of _ 2 1] by simp
  have b: "{r. 0 \<le> r \<and> r < 1 \<and> ((0::real) \<le> - 8 \<or> r < exp (- 8 / (1::real)))} =
     {0 ..< min 1 (exp (- 8 / (1::real)))}"
    using metropolis_trial_rule[of _ _ _ 1 "- 8"] by simp
  from h t n a b show ?thesis by blast
qed

section \<open>The two orders of the cache update (C10)\<close>

lemma cell_at_set_cell_same:
  assumes "0 \<le> i" "i < int (length sp)" "0 \<le> j" "j < int (length (sp ! nat i))"
  shows "cell_at (set_cell sp i j v) i j = v"
  using assms by (simp add: cell_at_def set_cell_def)

lemma flip_grids_legacy_eq:
  assumes "0 \<le> i" "i < int (length sp)" "0 \<le> j" "j < int (length (sp ! nat i))"
  shows "flip_grids_legacy W H i j (sp, ef) = flip_grids W H i j (sp, ef)"
  by (simp add: flip_grids_legacy_def flip_grids_def Let_def cell_at_set_cell_same[OF assms]
      sub_cell_def add_cell_def)

lemma flipSpin_legacy_eq:
  assumes "js_row (spin s) i = Some sr" "js_elem sr j = Some sp"
    and "width s' = width s" "height s' = height s" "spin s' = spin s"
  shows "flipSpin_legacy i j (to_legacy s') = to_legacy (flipSpin i j s')"
proof -
  from js_row_Some[OF assms(1)] js_elem_Some[OF assms(2)]
  have "0 \<le> i" "i < int (length (spin s'))" "0 \<le> j" "j < int (length (spin s' ! nat i))"
    by (simp_all add: assms)
  from flip_grids_legacy_eq[OF this] show ?thesis
    by (simp add: flipSpin_legacy_def flipSpin_def to_legacy_def Let_def)
qed

lemma to_legacy_sel:
  "nx (to_legacy s) = width s" "ny (to_legacy s) = height s"
  "mcSteps (to_legacy s) = mcStepsPerFrame s"
  "temp (to_legacy s) = temperature s" "hField (to_legacy s) = magneticField s"
  "spin_legacy (to_legacy s) = spin s" "exchangeField_legacy (to_legacy s) = exchangeField s"
  "randomSource_legacy (to_legacy s) = randomSource s"
  "randomCount_legacy (to_legacy s) = randomCount s"
  by (simp_all add: to_legacy_def)

lemma to_legacy_randomCount:
  "(to_legacy s)\<lparr>randomCount_legacy := c\<rparr> = to_legacy (s\<lparr>randomCount := c\<rparr>)"
  by (simp add: to_legacy_def)

lemma trial_legacy_eq: "trial_legacy (to_legacy s) = map_sum id to_legacy (trial s)"
proof -
  define i where "i = \<lfloor>of_int (width s) * randomSource s (randomCount s)\<rfloor>"
  define j where "j = \<lfloor>of_int (height s) * randomSource s (Suc (randomCount s))\<rfloor>"
  have f: "flipSpin_legacy i j (to_legacy (s\<lparr>randomCount := c\<rparr>)) =
      to_legacy (flipSpin i j (s\<lparr>randomCount := c\<rparr>))"
    if "js_row (spin s) i = Some sr" "js_elem sr j = Some sp" for sr sp c
    using flipSpin_legacy_eq[OF that, of "s\<lparr>randomCount := c\<rparr>"] by simp
  show ?thesis
    unfolding trial_legacy_def trial_def random_legacy_def random_def Let_def
      to_legacy_sel split_conv to_legacy_randomCount deltaE_of_def
    by (auto simp: to_legacy_sel to_legacy_randomCount f i_def[symmetric] j_def[symmetric]
        split: option.splits)
qed

lemma trials_legacy_eq: "trials_legacy n (to_legacy s) = map_sum id to_legacy (trials n s)"
proof (induction n arbitrary: s)
  case 0
  then show ?case by simp
next
  case (Suc n)
  show ?case
  proof (cases "trial s")
    case (Inl e)
    then show ?thesis using trial_legacy_eq[of s] by simp
  next
    case (Inr s1)
    then show ?thesis using trial_legacy_eq[of s] Suc.IH[of s1] by simp
  qed
qed

lemma metropolis_legacy_eq:
  "metropolis_legacy (to_legacy s) = map_sum id to_legacy (metropolis s)"
  using trials_legacy_eq[of "mcStepsPerFrame s" s]
  by (simp add: metropolis_legacy_def metropolis_def to_legacy_sel)

lemma to_legacy_surj: "\<exists>s. to_legacy s = l"
proof
  show "to_legacy
     \<lparr>width = nx l, height = ny l, mcStepsPerFrame = mcSteps l, averagingFrames = 1,
      temperature = temp l, magneticField = hField l, randomizeLattice = False,
      loopMode = None, loopTargetValue = 0, loopIncrement = 0,
      frameCounter = 1, dataTable = [], loopBackward = False, loopStartValue = 0,
      magnetization = 0, orderParameter = 0, averageMagnetization = 0,
      averageOrderParameter = 0, averageOrderParamter = None,
      spin = spin_legacy l, exchangeField = exchangeField_legacy l, looping = True,
      randomSource = randomSource_legacy l, randomCount = randomCount_legacy l\<rparr> = l"
    by (simp add: to_legacy_def)
qed

text \<open>
  C10. For a cell inside the spin grid, subtracting twice the old spin from the four
  neighbours' exchange fields and then negating the spin (second version) gives the
  same two grids as negating the spin and then adding twice the new spin (last
  version). With the same lattice, sizes, field, temperature, number of trials and
  random draws, a trial and a whole batch of either version both raise or both return,
  with the same grids and the same number of draws consumed; every object of the
  second version arises this way.
\<close>

theorem metropolis_variants_agree:
  "(0 \<le> i \<and> i < int (length sp) \<and> 0 \<le> j \<and> j < int (length (sp ! nat i)) \<longrightarrow>
      flip_grids_legacy W H i j (sp, ef) = flip_grids W H i j (sp, ef)) \<and>
   trial_legacy (to_legacy s) = map_sum id to_legacy (trial s) \<and>
   metropolis_legacy (to_legacy s) = map_sum id to_legacy (metropolis s) \<and>
   (\<exists>s'. to_legacy s' = l)"
  using flip_grids_legacy_eq trial_legacy_eq metropolis_legacy_eq to_legacy_surj by blast

text \<open>The theorem for the flip of cell \<open>(0, 0)\<close> of the example lattice.\<close>

theorem metropolis_variants_agree_witness:
  "(0::int) \<le> 0 \<and> (0::int) < int (length [[1, 1], [1, 1 :: int]]) \<and>
   (0::int) < int (length ([[1, 1], [1, 1 :: int]] ! nat 0)) \<and>
   flip_grids_legacy 2 2 0 0 ([[1, 1], [1, 1]], [[4, 4], [4, 4]]) =
     ([[- 1, 1], [1, 1]], [[4, 0], [0, 4]]) \<and>
   flip_grids 2 2 0 0 ([[1, 1], [1, 1]], [[4, 4], [4, 4]]) =
     ([[- 1, 1], [1, 1]], [[4, 0], [0, 4]]) \<and>
   metropolis_legacy (to_legacy lattice_state) = Inr (to_legacy flipped_state)"
proof -
  have h: "(0::int) \<le> 0 \<and> (0::int) < int (length [[1, 1], [1, 1 :: int]]) \<and> (0::int) \<le> 0 \<and>
      (0::int) < int (length ([[1, 1], [1, 1 :: int]] ! nat 0))"
    by simp
  have a: "flip_grids 2 2 0 0 ([[1, 1], [1, 1]], [[4, 4], [4, 4]]) =
     ([[- 1, 1], [1, 1]], [[4, 0], [0, 4]])"
    by (simp add: flip_grids_def Let_def set_cell_def add_cell_def cell_at_def wrap_next_def
        wrap_prev_def)
  have b: "flip_grids_legacy 2 2 0 0 ([[1, 1], [1, 1]], [[4, 4], [4, 4]]) =
     ([[- 1, 1], [1, 1]], [[4, 0], [0, 4]])"
    using metropolis_variants_agree[of 0 "[[1, 1], [1, 1]]" 0 2 2 "[[4, 4], [4, 4]]"] h a
    by simp
  have m: "metropolis lattice_state = Inr flipped_state"
    using trial_lattice by (simp add: metropolis_def flipped_state_def lattice_state_def)
  have c: "metropolis_legacy (to_legacy lattice_state) = Inr (to_legacy flipped_state)"
    using metropolis_variants_agree[of _ _ _ _ _ _ lattice_state] m by simp
  from h a b c show ?thesis by blast
qed

section \<open>Runs without errors\<close>

lemma outside_latticeD:
  assumes "outside_lattice a = outside_lattice b"
  shows "width a = width b" "height a = height b" "randomSource a = randomSource b"
    "dataTable a = dataTable b" "mcStepsPerFrame a = mcStepsPerFrame b"
    "scheduler_part a = scheduler_part b"
proof -
  have "width (outside_lattice a) = width (outside_lattice b)"
    "height (outside_lattice a) = height (outside_lattice b)"
    "randomSource (outside_lattice a) = randomSource (outside_lattice b)"
    "dataTable (outside_lattice a) = dataTable (outside_lattice b)"
    "mcStepsPerFrame (outside_lattice a) = mcStepsPerFrame (outside_lattice b)"
    "scheduler_part (outside_lattice a) = scheduler_part (outside_lattice b)"
    using assms by simp_all
  then show "width a = width b" "height a = height b" "randomSource a = randomSource b"
    "dataTable a = dataTable b" "mcStepsPerFrame a = mcStepsPerFrame b"
    "scheduler_part a = scheduler_part b"
    by (simp_all add: outside_lattice_def scheduler_part_def)
qed

lemma trial_sound:
  assumes "sound_state s"
  shows "\<exists>s'. trial s = Inr s' \<and> sound_state s'"
proof -
  from assms have inv: "cache_invariant s" and pos: "0 < width s" "0 < height s"
    and rnd: "\<forall>n. 0 \<le> randomSource s n \<and> randomSource s n < 1"
    by (simp_all add: sound_state_def)
  from trial_in_range(5)[OF inv pos rnd] obtain s' where t: "trial s = Inr s'" by blast
  from trial_invariant[OF inv t] outside_latticeD(1-3)[OF trial_outside[OF t]] pos rnd
  have "sound_state s'" by (simp add: sound_state_def)
  with t show ?thesis by blast
qed

lemma trials_sound:
  "sound_state s \<Longrightarrow> \<exists>s'. trials n s = Inr s' \<and> sound_state s'"
proof (induction n arbitrary: s)
  case 0
  then show ?case by simp
next
  case (Suc n)
  from trial_sound[OF Suc.prems] obtain s1 where "trial s = Inr s1" "sound_state s1"
    by blast
  with Suc.IH[of s1] show ?case by simp
qed

lemma sound_state_cong:
  "width s' = width s \<Longrightarrow> height s' = height s \<Longrightarrow> spin s' = spin s \<Longrightarrow>
   exchangeField s' = exchangeField s \<Longrightarrow> randomSource s' = randomSource s \<Longrightarrow>
   sound_state s' = sound_state s"
  by (simp add: sound_state_def cache_invariant_def)

lemma sound_state_iterate_update: "sound_state (iterate (update s)) = sound_state s"
  by (rule sound_state_cong)
    (simp_all add: iterate_def update_def Let_def increment_def terminate_def
      updateDataTable_def)

lemma simulationStep_sound:
  assumes "sound_state s"
  obtains s1 where "simulationStep s = Inr (iterate (update s1))"
    "sound_state (iterate (update s1))" "outside_lattice s1 = outside_lattice s"
proof -
  from trials_sound[OF assms, of "mcStepsPerFrame s"] obtain s1
    where m: "trials (mcStepsPerFrame s) s = Inr s1" and g: "sound_state s1" by blast
  have "simulationStep s = Inr (iterate (update s1))"
    using m by (simp add: simulationStep_def metropolis_def)
  moreover have "sound_state (iterate (update s1))"
    using g by (simp add: sound_state_iterate_update)
  ultimately show ?thesis using trials_outside[OF m] that by blast
qed

lemma frames_sound:
  "sound_state s \<Longrightarrow> \<exists>s'. frames n s = Inr s' \<and> sound_state s'"
proof (induction n arbitrary: s)
  case 0
  then show ?case by simp
next
  case (Suc n)
  show ?case
  proof (cases "looping s")
    case True
    from Suc.prems obtain s1 where s1: "simulationStep s = Inr (iterate (update s1))"
      "sound_state (iterate (update s1))"
      by (rule simulationStep_sound)
    from Suc.IH[OF s1(2)] s1(1) True show ?thesis by simp
  next
    case False
    with Suc.prems show ?thesis by simp
  qed
qed

lemma Ising_fields:
  assumes "Ising cfg rnd = Inr s"
  shows "width s = width cfg" "height s = height cfg" "randomSource s = rnd"
    "frameCounter s = 1" "dataTable s = []" "looping s"
    "temperature s = temperature cfg" "magneticField s = magneticField cfg"
    "loopMode s = loopMode cfg" "averagingFrames s = averagingFrames cfg"
    "loopTargetValue s = loopTargetValue cfg" "loopIncrement s = loopIncrement cfg"
    "mcStepsPerFrame s = mcStepsPerFrame cfg" "\<not> loopBackward s"
  using assms by (auto simp: Ising_def initialize_def Let_def split: option.splits)

lemma Ising_succeeds: "loopMode cfg \<noteq> None \<Longrightarrow> \<exists>s. Ising cfg rnd = Inr s"
  by (auto simp: Ising_def)

lemma Ising_sound:
  assumes "Ising cfg rnd = Inr s" "0 < width cfg" "0 < height cfg"
    "\<forall>n. 0 \<le> rnd n \<and> rnd n < 1"
  shows "sound_state s"
  using Ising_invariant[OF assms(1)] Ising_fields(1-3)[OF assms(1)] assms(2-4)
  by (simp add: sound_state_def)

lemma frames_stopped: "\<not> looping s \<Longrightarrow> frames n s = Inr s"
  by (cases n) simp_all

lemma frames_add:
  "frames (a + b) s = (case frames a s of Inl e \<Rightarrow> Inl e | Inr s' \<Rightarrow> frames b s')"
proof (induction a arbitrary: s)
  case 0
  then show ?case by simp
next
  case (Suc a)
  then show ?case by (auto simp: frames_stopped split: sum.splits)
qed

section \<open>The sweep scenario (C5)\<close>

lemma sweep_iterate_update:
  assumes "sweep_static s1 (B, target, inc)"
  shows "sweep_obs (iterate (update s1)) = sweep_next B target inc (sweep_obs s1)"
    and "sweep_static (iterate (update s1)) (B, target, inc)"
  using assms
  by (auto simp: sweep_static_def sweep_obs_def sweep_next_def iterate_def update_def
      Let_def averagingCompleted_def exitCondition_def increment_def terminate_def
      updateDataTable_def)

lemma sweep_step:
  assumes "sound_state s" "sweep_static s (B, target, inc)"
  shows "\<exists>s'. simulationStep s = Inr s' \<and> sound_state s' \<and>
           sweep_static s' (B, target, inc) \<and>
           sweep_obs s' = sweep_next B target inc (sweep_obs s)"
proof -
  from assms(1) obtain s1 where s1: "simulationStep s = Inr (iterate (update s1))"
    "sound_state (iterate (update s1))" "outside_lattice s1 = outside_lattice s"
    by (rule simulationStep_sound)
  from outside_latticeD(4,6)[OF s1(3)]
  have o: "sweep_obs s1 = sweep_obs s" and st: "sweep_static s1 (B, target, inc)"
    using assms(2) by (simp_all add: sweep_obs_def sweep_static_def scheduler_part_def)
  from sweep_iterate_update[OF st] s1 o show ?thesis by simp
qed

lemma sweep_run:
  assumes "sound_state s" "sweep_static s (B, target, inc)"
  shows "\<exists>s'. frames n s = Inr s' \<and> sweep_obs s' = sweep_frames n B target inc (sweep_obs s)"
  using assms
proof (induction n arbitrary: s)
  case 0
  then show ?case by simp
next
  case (Suc n)
  show ?case
  proof (cases "looping s")
    case True
    from sweep_step[OF Suc.prems] obtain s1 where s1: "simulationStep s = Inr s1"
      "sound_state s1" "sweep_static s1 (B, target, inc)"
      "sweep_obs s1 = sweep_next B target inc (sweep_obs s)"
      by blast
    from Suc.IH[OF s1(2,3)] s1(1,4) True show ?thesis
      by (simp add: sweep_obs_def)
  next
    case False
    then show ?thesis by (simp add: sweep_obs_def)
  qed
qed

lemma sweep_scenario:
  "sweep_frames 25 5 (1 / 2) (- (1 / 10)) (1, 1, True, 0) = (1 / 2, 26, True, 5)"
  "sweep_frames 30 5 (1 / 2) (- (1 / 10)) (1, 1, True, 0) = (1 / 2, 31, False, 6)"
  by (simp_all add: eval_nat_numeral sweep_next_def epsilon_def)

lemma sweep_scenario_run:
  assumes cfg: "width cfg = 10" "height cfg = 10" "averagingFrames cfg = 5"
    "temperature cfg = 1" "loopMode cfg = Some ''TSWEEP''" "loopTargetValue cfg = 1 / 2"
    "loopIncrement cfg = - (1 / 10)"
    and rnd: "\<forall>n. 0 \<le> rnd n \<and> rnd n < 1"
  obtains s0 where "Ising cfg rnd = Inr s0"
    and "\<And>n. \<exists>s. frames n s0 = Inr s \<and>
          sweep_obs s = sweep_frames n 5 (1 / 2) (- (1 / 10)) (1, 1, True, 0)"
proof -
  from cfg(5) Ising_succeeds[of cfg rnd] obtain s0 where s0: "Ising cfg rnd = Inr s0"
    by auto
  have g: "sound_state s0" using Ising_sound[OF s0] cfg rnd by simp
  note f = Ising_fields[OF s0]
  have st: "sweep_static s0 (5, 1 / 2, - (1 / 10))"
    using f cfg by (simp add: sweep_static_def)
  have ob: "sweep_obs s0 = (1, 1, True, 0)"
    using f cfg by (simp add: sweep_obs_def)
  from sweep_run[OF g st] ob
  have "\<exists>s. frames n s0 = Inr s \<and>
          sweep_obs s = sweep_frames n 5 (1 / 2) (- (1 / 10)) (1, 1, True, 0)" for n
    by simp
  with s0 that show ?thesis by blast
qed

lemma sweep_scenario29:
  "sweep_frames 29 5 (1 / 2) (- (1 / 10)) (1, 1, True, 0) = (1 / 2, 30, True, 5)"
  by (simp add: eval_nat_numeral sweep_next_def epsilon_def)

text \<open>
  C5, as the code has it. In the mode \<^verbatim>\<open>TSWEEP\<close> on a lattice of 10 by 10 cells with
  initial temperature 1, target 0.5, increment \<open>- 0.1\<close> and blocks of 5 frames, whatever
  the number of trials per frame, the field, the initial lattice and the draws: after 5
  completed blocks (25 frames) five rows are recorded, the temperature has just been
  set to 0.5 and the simulation still runs; it still runs after 29 frames; the 6th
  block records a 6th row and then ends the simulation (frame 30), with the temperature
  within \<open>epsilon\<close> of 0.5; later frames change nothing. The exit test of \<open>iterate\<close>
  comes after \<open>update\<close> has recorded the block, and before the increment.
\<close>

theorem sweep_scenario_six_blocks:
  "width cfg = 10 \<and> height cfg = 10 \<and> averagingFrames cfg = 5 \<and> temperature cfg = 1 \<and>
   loopMode cfg = Some ''TSWEEP'' \<and> loopTargetValue cfg = 1 / 2 \<and>
   loopIncrement cfg = - (1 / 10) \<and> (\<forall>n. 0 \<le> rnd n \<and> rnd n < 1) \<longrightarrow>
   (\<exists>s0 s25 s29 s30.
      Ising cfg rnd = Inr s0 \<and>
      frames 25 s0 = Inr s25 \<and> looping s25 \<and> length (dataTable s25) = 5 \<and>
      temperature s25 = 1 / 2 \<and>
      frames 29 s0 = Inr s29 \<and> looping s29 \<and> length (dataTable s29) = 5 \<and>
      frames 30 s0 = Inr s30 \<and> \<not> looping s30 \<and> length (dataTable s30) = 6 \<and>
      \<bar>temperature s30 - 1 / 2\<bar> < epsilon \<and>
      (\<forall>n. frames (30 + n) s0 = Inr s30))"
proof
  assume h: "width cfg = 10 \<and> height cfg = 10 \<and> averagingFrames cfg = 5 \<and>
    temperature cfg = 1 \<and> loopMode cfg = Some ''TSWEEP'' \<and> loopTargetValue cfg = 1 / 2 \<and>
    loopIncrement cfg = - (1 / 10) \<and> (\<forall>n. 0 \<le> rnd n \<and> rnd n < 1)"
  then obtain s0 where s0: "Ising cfg rnd = Inr s0"
    and run: "\<And>n. \<exists>s. frames n s0 = Inr s \<and>
          sweep_obs s = sweep_frames n 5 (1 / 2) (- (1 / 10)) (1, 1, True, 0)"
    using sweep_scenario_run[of cfg rnd] by blast
  from run[of 25] obtain s25 where a: "frames 25 s0 = Inr s25"
    "sweep_obs s25 = (1 / 2, 26, True, 5)"
    by (auto simp only: sweep_scenario)
  from run[of 29] obtain s29 where b: "frames 29 s0 = Inr s29"
    "sweep_obs s29 = (1 / 2, 30, True, 5)"
    by (auto simp only: sweep_scenario29)
  from run[of 30] obtain s30 where c: "frames 30 s0 = Inr s30"
    "sweep_obs s30 = (1 / 2, 31, False, 6)"
    by (auto simp only: sweep_scenario)
  have d: "frames (30 + n) s0 = Inr s30" for n
    using c by (simp add: frames_add frames_stopped sweep_obs_def)
  from s0 a b c d show "\<exists>s0 s25 s29 s30.
      Ising cfg rnd = Inr s0 \<and>
      frames 25 s0 = Inr s25 \<and> looping s25 \<and> length (dataTable s25) = 5 \<and>
      temperature s25 = 1 / 2 \<and>
      frames 29 s0 = Inr s29 \<and> looping s29 \<and> length (dataTable s29) = 5 \<and>
      frames 30 s0 = Inr s30 \<and> \<not> looping s30 \<and> length (dataTable s30) = 6 \<and>
      \<bar>temperature s30 - 1 / 2\<bar> < epsilon \<and>
      (\<forall>n. frames (30 + n) s0 = Inr s30)"
    by (intro exI[of _ s0] exI[of _ s25] exI[of _ s29] exI[of _ s30])
      (simp add: sweep_obs_def epsilon_def)
qed

text \<open>The theorem for one trial per frame on a uniform lattice with all draws 0.\<close>

theorem sweep_scenario_six_blocks_witness:
  "width sweep_settings = 10 \<and> height sweep_settings = 10 \<and>
   averagingFrames sweep_settings = 5 \<and> temperature sweep_settings = 1 \<and>
   loopMode sweep_settings = Some ''TSWEEP'' \<and> loopTargetValue sweep_settings = 1 / 2 \<and>
   loopIncrement sweep_settings = - (1 / 10) \<and>
   (\<forall>n. 0 \<le> zero_draws n \<and> zero_draws n < 1) \<and>
   (\<exists>s0 s25 s29 s30.
      Ising sweep_settings zero_draws = Inr s0 \<and>
      frames 25 s0 = Inr s25 \<and> looping s25 \<and> length (dataTable s25) = 5 \<and>
      temperature s25 = 1 / 2 \<and>
      frames 29 s0 = Inr s29 \<and> looping s29 \<and> length (dataTable s29) = 5 \<and>
      frames 30 s0 = Inr s30 \<and> \<not> looping s30 \<and> length (dataTable s30) = 6 \<and>
      \<bar>temperature s30 - 1 / 2\<bar> < epsilon \<and>
      (\<forall>n. frames (30 + n) s0 = Inr s30))"
proof -
  have h: "width sweep_settings = 10 \<and> height sweep_settings = 10 \<and>
   averagingFrames sweep_settings = 5 \<and> temperature sweep_settings = 1 \<and>
   loopMode sweep_settings = Some ''TSWEEP'' \<and> loopTargetValue sweep_settings = 1 / 2 \<and>
   loopIncrement sweep_settings = - (1 / 10) \<and>
   (\<forall>n. 0 \<le> zero_draws n \<and> zero_draws n < 1)"
    by (simp add: sweep_settings_def zero_draws_def)
  with sweep_scenario_six_blocks[of sweep_settings zero_draws] show ?thesis by blast
qed

text \<open>
  The claim as stated fails there: after 5 completed blocks the scheduler has not
  reported termination, and a 6th row is recorded.
\<close>

theorem sweep_scenario_counterexample:
  "\<not> isl (Ising sweep_settings zero_draws) \<and>
   \<not> isl (frames 25 (projr (Ising sweep_settings zero_draws))) \<and>
   looping (projr (frames 25 (projr (Ising sweep_settings zero_draws)))) \<and>
   length (dataTable (projr (frames 25 (projr (Ising sweep_settings zero_draws))))) = 5 \<and>
   \<not> isl (frames 30 (projr (Ising sweep_settings zero_draws))) \<and>
   \<not> looping (projr (frames 30 (projr (Ising sweep_settings zero_draws)))) \<and>
   length (dataTable (projr (frames 30 (projr (Ising sweep_settings zero_draws))))) = 6"
proof -
  have "\<forall>n. 0 \<le> zero_draws n \<and> zero_draws n < 1" by (simp add: zero_draws_def)
  then obtain s0 where s0: "Ising sweep_settings zero_draws = Inr s0"
    and run: "\<And>n. \<exists>s. frames n s0 = Inr s \<and>
          sweep_obs s = sweep_frames n 5 (1 / 2) (- (1 / 10)) (1, 1, True, 0)"
    using sweep_scenario_run[of sweep_settings zero_draws]
    by (auto simp: sweep_settings_def)
  from run[of 25] obtain s25 where a: "frames 25 s0 = Inr s25"
    "sweep_obs s25 = (1 / 2, 26, True, 5)"
    by (auto simp only: sweep_scenario)
  from run[of 30] obtain s30 where c: "frames 30 s0 = Inr s30"
    "sweep_obs s30 = (1 / 2, 31, False, 6)"
    by (auto simp only: sweep_scenario)
  from s0 a c show ?thesis by (simp add: sweep_obs_def)
qed

section \<open>Invalid settings (C6)\<close>

text \<open>
  C6, as the code has it. The constructor checks no setting: for every \<^verbatim>\<open>loopMode\<close> that
  is a string it returns an object that holds width, height, block size, temperature
  and mode as given, whatever their values; and when width and height are positive (and
  the draws lie in \<open>[0, 1)\<close>) every frame of the draw loop then runs without an error,
  whatever the temperature, the block size and the mode string.
\<close>

theorem construction_validates_nothing:
  "(loopMode cfg \<noteq> None \<longrightarrow>
      (\<exists>s. Ising cfg rnd = Inr s \<and> width s = width cfg \<and> height s = height cfg \<and>
           averagingFrames s = averagingFrames cfg \<and> temperature s = temperature cfg \<and>
           loopMode s = loopMode cfg \<and> looping s)) \<and>
   (loopMode cfg \<noteq> None \<and> 0 < width cfg \<and> 0 < height cfg \<and>
      (\<forall>n. 0 \<le> rnd n \<and> rnd n < 1) \<longrightarrow>
      (\<exists>s. Ising cfg rnd = Inr s \<and> (\<forall>n. \<exists>s'. frames n s = Inr s')))"
proof (intro conjI impI)
  assume "loopMode cfg \<noteq> None"
  then obtain s where s: "Ising cfg rnd = Inr s" using Ising_succeeds by blast
  from Ising_fields[OF s] s
  show "\<exists>s. Ising cfg rnd = Inr s \<and> width s = width cfg \<and> height s = height cfg \<and>
           averagingFrames s = averagingFrames cfg \<and> temperature s = temperature cfg \<and>
           loopMode s = loopMode cfg \<and> looping s"
    by simp
next
  assume h: "loopMode cfg \<noteq> None \<and> 0 < width cfg \<and> 0 < height cfg \<and>
      (\<forall>n. 0 \<le> rnd n \<and> rnd n < 1)"
  then obtain s where s: "Ising cfg rnd = Inr s" using Ising_succeeds by blast
  have "sound_state s" using Ising_sound[OF s] h by blast
  from frames_sound[OF this] s
  show "\<exists>s. Ising cfg rnd = Inr s \<and> (\<forall>n. \<exists>s'. frames n s = Inr s')" by blast
qed

text \<open>The theorem for the settings with negative block size and temperature.\<close>

theorem construction_validates_nothing_witness:
  "loopMode bad_settings \<noteq> None \<and> 0 < width bad_settings \<and> 0 < height bad_settings \<and>
   (\<forall>n. 0 \<le> zero_draws n \<and> zero_draws n < 1) \<and>
   (\<exists>s. Ising bad_settings zero_draws = Inr s \<and> width s = 2 \<and> height s = 2 \<and>
        averagingFrames s = - 1 \<and> temperature s = - 1 \<and> loopMode s = Some ''BOGUS'' \<and>
        looping s) \<and>
   (\<exists>s. Ising bad_settings zero_draws = Inr s \<and> (\<forall>n. \<exists>s'. frames n s = Inr s'))"
proof -
  have h: "loopMode bad_settings \<noteq> None \<and> 0 < width bad_settings \<and>
      0 < height bad_settings \<and> (\<forall>n. 0 \<le> zero_draws n \<and> zero_draws n < 1)"
    by (simp add: bad_settings_def zero_draws_def)
  have "\<exists>s. Ising bad_settings zero_draws = Inr s \<and> width s = 2 \<and> height s = 2 \<and>
        averagingFrames s = - 1 \<and> temperature s = - 1 \<and> loopMode s = Some ''BOGUS'' \<and>
        looping s"
    using construction_validates_nothing[of bad_settings zero_draws] h
    by (simp add: bad_settings_def)
  with construction_validates_nothing[of bad_settings zero_draws] h show ?thesis by blast
qed

lemma Ising_bad: "Ising bad_settings zero_draws = Inr bad_state"
  by (simp add: Ising_def bad_settings_def bad_state_def initialize_def Let_def upt2
      initial_spin_def sumOverNextNeighbors_def wrap_next_def wrap_prev_def cell_at_def)

lemma trial_bad:
  "trial bad_state =
     Inr (bad_state\<lparr>spin := [[-1, 1], [1, 1]], exchangeField := [[4, 0], [0, 4]],
       randomCount := 3\<rparr>)"
  by (simp add: trial_def random_def bad_state_def js_row_def js_elem_def deltaE_of_def
      boltzmannAccept_def flipSpin_def flip_grids_def Let_def set_cell_def add_cell_def
      cell_at_def wrap_next_def wrap_prev_def zero_draws_def)

lemma simulationStep_bad:
  "\<not> isl (simulationStep bad_state) \<and>
   frameCounter (projr (simulationStep bad_state)) = 2 \<and>
   temperature (projr (simulationStep bad_state)) = - 1 \<and>
   spin (projr (simulationStep bad_state)) = [[- 1, 1], [1, 1]]"
proof -
  have "mcStepsPerFrame bad_state = 1" by (simp add: bad_state_def)
  then have "simulationStep bad_state =
      Inr (iterate (update (bad_state\<lparr>spin := [[-1, 1], [1, 1]],
        exchangeField := [[4, 0], [0, 4]], randomCount := 3\<rparr>)))"
    using trial_bad by (simp add: simulationStep_def metropolis_def)
  then show ?thesis
    by (simp add: iterate_def update_def Let_def increment_def terminate_def
        updateDataTable_def bad_state_def averagingCompleted_def exitCondition_def)
qed

lemma Ising_empty:
  "\<not> isl (Ising empty_settings zero_draws) \<and>
   spin (projr (Ising empty_settings zero_draws)) = [] \<and>
   simulationStep (projr (Ising empty_settings zero_draws)) = Inl TypeError"
  by (simp add: Ising_def empty_settings_def initialize_def Let_def simulationStep_def
      metropolis_def trial_def random_def js_row_def)

text \<open>
  Without columns the first trial raises: \<^verbatim>\<open>this.spin[i]\<close> is \<^verbatim>\<open>undefined\<close> for every
  \<open>i\<close>, and reading its element \<open>j\<close> is a TypeError. A lattice of positive width and of
  height 0 has columns, which are empty: there the trial reads \<^verbatim>\<open>undefined\<close> cells and
  flips nothing.
\<close>

lemma js_row_Nil: "js_row [] i = None"
  by (auto simp: js_row_def)

lemma trial_no_columns: "spin s = [] \<Longrightarrow> trial s = Inl TypeError"
  by (simp add: trial_def random_def js_row_Nil Let_def)

lemma Ising_no_columns:
  assumes "loopMode cfg \<noteq> None" "width cfg \<le> 0" "0 < mcStepsPerFrame cfg"
  shows "\<not> isl (Ising cfg rnd)" "spin (projr (Ising cfg rnd)) = []"
    "simulationStep (projr (Ising cfg rnd)) = Inl TypeError"
proof -
  from assms(1) obtain m where m: "loopMode cfg = Some m" by auto
  from assms(3) obtain k where k: "mcStepsPerFrame cfg = Suc k"
    by (cases "mcStepsPerFrame cfg") auto
  show "\<not> isl (Ising cfg rnd)" by (simp add: Ising_def m)
  show sp: "spin (projr (Ising cfg rnd)) = []"
    using assms(2) by (simp add: Ising_def m initialize_def Let_def)
  have "mcStepsPerFrame (projr (Ising cfg rnd)) = Suc k"
    by (simp add: Ising_def m k initialize_def Let_def)
  with trial_no_columns[OF sp]
  show "simulationStep (projr (Ising cfg rnd)) = Inl TypeError"
    by (simp add: simulationStep_def metropolis_def)
qed

text \<open>
  The claim as stated fails: the constructor accepts a negative block size, a negative
  temperature and an unknown mode, and the first simulation step runs and flips a spin.
  It accepts a lattice of width 0 as well; there the first trial of the first step
  raises.
\<close>

theorem invalid_settings_counterexample:
  "\<not> isl (Ising bad_settings zero_draws) \<and>
   temperature (projr (Ising bad_settings zero_draws)) = - 1 \<and>
   averagingFrames (projr (Ising bad_settings zero_draws)) = - 1 \<and>
   loopMode (projr (Ising bad_settings zero_draws)) = Some ''BOGUS'' \<and>
   \<not> isl (simulationStep (projr (Ising bad_settings zero_draws))) \<and>
   frameCounter (projr (simulationStep (projr (Ising bad_settings zero_draws)))) = 2 \<and>
   spin (projr (simulationStep (projr (Ising bad_settings zero_draws)))) =
     [[- 1, 1], [1, 1]] \<and>
   \<not> isl (Ising empty_settings zero_draws) \<and>
   spin (projr (Ising empty_settings zero_draws)) = [] \<and>
   simulationStep (projr (Ising empty_settings zero_draws)) = Inl TypeError"
  using simulationStep_bad Ising_empty
  by (simp add: Ising_bad) (simp add: bad_state_def)

section \<open>Block averages (C3)\<close>

lemma update_averageOrderParameter:
  "averageOrderParameter (update s) =
     (if averagingCompleted s then 0 else averageOrderParameter s)"
  "averageOrderParamter s = None \<Longrightarrow> averageOrderParamter (update s) = None"
  by (simp_all add: update_def Let_def updateDataTable_def averagingCompleted_def)

text \<open>
  C3. \<^verbatim>\<open>update\<close> adds \<^verbatim>\<open>orderParameter/averagingFrames\<close> to the property
  \<^verbatim>\<open>averageOrderParamter\<close> (line 920) and records \<^verbatim>\<open>averageOrderParameter\<close>, which
  stays 0. On the uniform example lattice, built without trials and with blocks of one
  frame, the first simulation step finds magnetization 1 and order parameter 1; the row
  it records holds the magnetization 1 and the order parameter 0. The second version
  of the source (line 524) adds to \<^verbatim>\<open>averageOrder\<close> and records it.
\<close>

theorem update_order_parameter_not_recorded:
  "Ising (lattice_settings\<lparr>mcStepsPerFrame := 0\<rparr>) (\<lambda>n. 0) =
     Inr (lattice_state\<lparr>mcStepsPerFrame := 0\<rparr>) \<and>
   simulationStep (lattice_state\<lparr>mcStepsPerFrame := 0\<rparr>) =
     Inr (iterate (update (lattice_state\<lparr>mcStepsPerFrame := 0\<rparr>))) \<and>
   magnetization (iterate (update (lattice_state\<lparr>mcStepsPerFrame := 0\<rparr>))) = 1 \<and>
   orderParameter (iterate (update (lattice_state\<lparr>mcStepsPerFrame := 0\<rparr>))) = 1 \<and>
   dataTable (iterate (update (lattice_state\<lparr>mcStepsPerFrame := 0\<rparr>))) =
     [\<lparr>row_temperature = 1, row_magneticField = 0, row_magnetization = 1,
       row_orderParameter = 0\<rparr>] \<and>
   averageOrderParamter (iterate (update (lattice_state\<lparr>mcStepsPerFrame := 0\<rparr>))) = None"
proof -
  let ?s = "lattice_state\<lparr>mcStepsPerFrame := 0\<rparr>"
  have a: "Ising (lattice_settings\<lparr>mcStepsPerFrame := 0\<rparr>) (\<lambda>n. 0) = Inr ?s"
    by (simp add: Ising_def lattice_settings_def lattice_state_def initialize_def Let_def
        upt2 initial_spin_def sumOverNextNeighbors_def wrap_next_def wrap_prev_def
        cell_at_def)
  have b: "simulationStep ?s = Inr (iterate (update ?s))"
    by (rule simulationStep_no_trials) simp
  have c: "update ?s =
      ?s\<lparr>magnetization := 1, orderParameter := 1,
        dataTable := [\<lparr>row_temperature = 1, row_magneticField = 0, row_magnetization = 1,
          row_orderParameter = 0\<rparr>]\<rparr>"
    by (simp add: update_def Let_def updateDataTable_def averagingCompleted_def
        lattice_state_def lattice_sum_def cell_at_def upt2 fl_0 fl_uniform2)
  have d: "magnetization (iterate u) = magnetization u"
    "orderParameter (iterate u) = orderParameter u" "dataTable (iterate u) = dataTable u"
    "averageOrderParamter (iterate u) = averageOrderParamter u" for u
    by (simp_all add: iterate_def Let_def increment_def terminate_def)
  from a b show ?thesis by (simp add: d c) (simp add: lattice_state_def)
qed

end
